theory Spec2Isabelle
  imports Main "HOL-Library.Sublist"
begin

section \<open>Python values and library functions used by the history parser\<close>

text \<open>
  Strings are byte lists, and the text of the files is taken to be ASCII (Python counts
  some characters beyond ASCII as whitespace or as digits). Exceptions are values: every
  function of the source that can raise returns \<open>py_error + 'a\<close>, with \<open>Inl\<close> the
  exception that propagates.
\<close>

datatype py_error = IndexError | ValueError | UnboundLocalError | OverflowError | AxisError

text \<open>\<^verbatim>\<open>lst[i]\<close> for a non-negative literal index: IndexError out of range.\<close>

definition get :: "'a list \<Rightarrow> nat \<Rightarrow> py_error + 'a" where
  "get xs i = (if i < length xs then Inr (xs ! i) else Inl IndexError)"

text \<open>
  \<^verbatim>\<open>str.isspace\<close> on one ASCII character: tab, newline, vertical tab, form feed,
  carriage return, the four separators 0x1c..0x1f, and space.
\<close>

definition is_space :: "char \<Rightarrow> bool" where
  "is_space c = (let n = (of_char c :: nat) in (9 \<le> n \<and> n \<le> 13) \<or> (28 \<le> n \<and> n \<le> 32))"

text \<open>\<^verbatim>\<open>s.strip()\<close>: leading and trailing whitespace removed.\<close>

definition strip :: "string \<Rightarrow> string" where
  "strip s = rev (dropWhile is_space (rev (dropWhile is_space s)))"

text \<open>
  \<^verbatim>\<open>s.split(sep)\<close> for a one-character separator: the fields between the separators,
  empty fields included; the empty string gives one empty field. \<open>acc\<close> is the field
  being read, reversed.
\<close>

fun split_acc :: "char \<Rightarrow> string \<Rightarrow> string \<Rightarrow> string list" where
  "split_acc sep acc [] = [rev acc]"
| "split_acc sep acc (c # cs) =
     (if c = sep then rev acc # split_acc sep [] cs else split_acc sep (c # acc) cs)"

definition split :: "char \<Rightarrow> string \<Rightarrow> string list" where
  "split sep s = split_acc sep [] s"

text \<open>\<^verbatim>\<open>s.startswith(p)\<close>.\<close>

definition startswith :: "string \<Rightarrow> string \<Rightarrow> bool" where
  "startswith s p = (take (length p) s = p)"

section \<open>The Deduplicator: \<^verbatim>\<open>remove_earlier_duplicate_trips\<close>\<close>

text \<open>
  The history file is the list of lines that \<^verbatim>\<open>history.readlines()\<close> returns (every
  line with its newline, which only the last line of a file may lack), and
  \<^verbatim>\<open>writelines\<close> writes such a list back. The function reads the file, and writes it
  only after its loop has finished.

  The body of the \<^verbatim>\<open>try\<close> for one line: the key \<^verbatim>\<open>(lst[0], lst[3], lst[6])\<close> of the
  comma-separated fields of the stripped line, the three subscripts evaluated in this
  order.
\<close>

type_synonym combo = "string \<times> string \<times> string"

definition line_key :: "string \<Rightarrow> py_error + combo" where
  "line_key line =
     (let lst = split CHR '','' (strip line) in
      case get lst 0 of Inl e \<Rightarrow> Inl e | Inr trip_id \<Rightarrow>
     (case get lst 3 of Inl e \<Rightarrow> Inl e | Inr stop_id \<Rightarrow>
     (case get lst 6 of Inl e \<Rightarrow> Inl e | Inr scheduled_start_date \<Rightarrow>
        Inr (trip_id, stop_id, scheduled_start_date))))"

text \<open>
  The loop over the reversed lines, with its two variables \<^verbatim>\<open>seen_trip_stop_combos\<close>
  and \<^verbatim>\<open>unique_lines\<close>. The handler \<^verbatim>\<open>except ValueError\<close> keeps the line; any other
  exception leaves the loop and the function.
\<close>

fun dedup_loop :: "string list \<Rightarrow> combo set \<Rightarrow> string list \<Rightarrow> py_error + string list" where
  "dedup_loop [] seen_trip_stop_combos unique_lines = Inr unique_lines"
| "dedup_loop (line # lines) seen_trip_stop_combos unique_lines =
     (case line_key line of
        Inl e \<Rightarrow>
          (if e = ValueError then dedup_loop lines seen_trip_stop_combos (unique_lines @ [line])
           else Inl e)
      | Inr k \<Rightarrow>
          (if k \<notin> seen_trip_stop_combos
           then dedup_loop lines (insert k seen_trip_stop_combos) (unique_lines @ [line])
           else dedup_loop lines seen_trip_stop_combos unique_lines))"

text \<open>
  The whole function, as a step on the history file: the outcome and the file afterwards.
  An exception in the loop is raised before the file is opened for writing, so the file
  keeps its content.
\<close>

definition remove_earlier_duplicate_trips :: "string list \<Rightarrow> (py_error + unit) \<times> string list" where
  "remove_earlier_duplicate_trips history =
     (case dedup_loop (rev history) {} [] of
        Inl e \<Rightarrow> (Inl e, history)
      | Inr unique_lines \<Rightarrow> (Inr (), rev unique_lines))"

text \<open>
  The set and the list of the loop, read off directly: the first line of each key that is
  not yet in \<open>seen\<close>, in scan order. Used to state what the loop computes.
\<close>

fun firsts :: "('a \<Rightarrow> 'k) \<Rightarrow> 'k set \<Rightarrow> 'a list \<Rightarrow> 'a list" where
  "firsts f seen [] = []"
| "firsts f seen (x # xs) =
     (if f x \<in> seen then firsts f seen xs else x # firsts f (insert (f x) seen) xs)"

text \<open>The header that \<^verbatim>\<open>write_first_line\<close> writes.\<close>

definition newline :: string where
  "newline = [CHR 0x0A]"

definition first_line :: string where
  "first_line = ''tatripid,log_time,stop_name,stop_id,route_id,direction,scheduled_start_date,scheduled_start_time,actual_arrival_time,scheduled_arrival_time'' @ newline"

section \<open>Clock times: \<^verbatim>\<open>strptime\<close>, \<^verbatim>\<open>strftime\<close>, \<^verbatim>\<open>int\<close>, \<^verbatim>\<open>str\<close>\<close>

definition is_digit :: "char \<Rightarrow> bool" where
  "is_digit c = (let n = (of_char c :: nat) in 48 \<le> n \<and> n \<le> 57)"

definition digit_val :: "char \<Rightarrow> nat" where
  "digit_val c = of_char c - 48"

definition digit_char :: "nat \<Rightarrow> char" where
  "digit_char n = char_of (48 + n)"

definition digits_val :: "string \<Rightarrow> nat" where
  "digits_val s = foldl (\<lambda>a c. 10 * a + digit_val c) 0 s"

text \<open>
  A field of one or two decimal digits, as the directives \<^verbatim>\<open>%H\<close>, \<^verbatim>\<open>%M\<close>, \<^verbatim>\<open>%S\<close>,
  \<^verbatim>\<open>%m\<close> and \<^verbatim>\<open>%d\<close> of \<^verbatim>\<open>strptime\<close> read it.
\<close>

definition num_1_2 :: "string \<Rightarrow> nat option" where
  "num_1_2 s =
     (if (length s = 1 \<or> length s = 2) \<and> list_all is_digit s then Some (digits_val s)
      else None)"

text \<open>
  \<^verbatim>\<open>datetime.strptime(s, '%H:%M:%S')\<close>. The directives match \<^verbatim>\<open>2[0-3]|[0-1]\d|\d\<close>,
  \<^verbatim>\<open>[0-5]\d|\d\<close> and \<^verbatim>\<open>6[0-1]|[0-5]\d|\d\<close>, the whole string must be consumed, and the
  \<^verbatim>\<open>datetime\<close> constructor refuses the seconds 60 and 61: the string is three fields
  separated by colons, each of one or two digits and in range. Every failure is a
  ValueError.
\<close>

definition strptime_HMS :: "string \<Rightarrow> py_error + (nat \<times> nat \<times> nat)" where
  "strptime_HMS s =
     (case split CHR '':'' s of
        [a, b, c] \<Rightarrow>
          (case (num_1_2 a, num_1_2 b, num_1_2 c) of
             (Some h, Some m, Some sec) \<Rightarrow>
               (if h \<le> 23 \<and> m \<le> 59 \<and> sec \<le> 59 then Inr (h, m, sec) else Inl ValueError)
           | _ \<Rightarrow> Inl ValueError)
      | _ \<Rightarrow> Inl ValueError)"

definition pad2 :: "nat \<Rightarrow> string" where
  "pad2 n = [digit_char (n div 10), digit_char (n mod 10)]"

text \<open>\<^verbatim>\<open>.strftime('%H:%M')\<close> of a time with hour \<open>h\<close> and minute \<open>m\<close>.\<close>

definition strftime_HM :: "nat \<Rightarrow> nat \<Rightarrow> string" where
  "strftime_HM h m = pad2 h @ '':'' @ pad2 m"

text \<open>
  \<^verbatim>\<open>int(s)\<close> for an ASCII string: surrounding whitespace, an optional sign, then decimal
  digits, where single underscores may stand between digits; at most 4300 digits (the
  default limit of the interpreter). Anything else is a ValueError. The whitespace that
  \<^verbatim>\<open>int\<close> skips is that of the C library (tab to carriage return, and space): unlike
  \<^verbatim>\<open>strip\<close> it does not skip the separators 0x1c..0x1f. \<open>int_body\<close> reads the part
  after the sign; its flag says that the last character was a digit.
\<close>

definition is_c_space :: "char \<Rightarrow> bool" where
  "is_c_space c = (let n = (of_char c :: nat) in (9 \<le> n \<and> n \<le> 13) \<or> n = 32)"

fun int_body :: "bool \<Rightarrow> string \<Rightarrow> bool" where
  "int_body prev_digit [] = prev_digit"
| "int_body prev_digit (c # cs) =
     (if is_digit c then int_body True cs
      else if c = CHR ''_'' \<and> prev_digit then int_body False cs
      else False)"

definition py_int :: "string \<Rightarrow> py_error + int" where
  "py_int s =
     (let t = rev (dropWhile is_c_space (rev (dropWhile is_c_space s)));
          neg = (t \<noteq> [] \<and> hd t = CHR ''-'');
          body = (if t \<noteq> [] \<and> (hd t = CHR ''-'' \<or> hd t = CHR ''+'') then tl t else t)
      in if int_body False body \<and> length (filter is_digit body) \<le> 4300
         then Inr ((if neg then - 1 else 1) * int (digits_val (filter is_digit body)))
         else Inl ValueError)"

text \<open>\<^verbatim>\<open>str(n)\<close> for an integer.\<close>

fun nat_digits :: "nat \<Rightarrow> string" where
  "nat_digits n =
     (if n < 10 then [digit_char n] else nat_digits (n div 10) @ [digit_char (n mod 10)])"

definition py_str :: "int \<Rightarrow> string" where
  "py_str i = (if i < 0 then CHR ''-'' # nat_digits (nat (- i)) else nat_digits (nat i))"

section \<open>The Schedule Matcher: \<^verbatim>\<open>find_scheduled_arrival_time\<close>\<close>

text \<open>
  The \<^verbatim>\<open>try\<close>/\<^verbatim>\<open>except ValueError\<close> that formats the arrival time \<^verbatim>\<open>stop[4]\<close> of the
  matched row. In the handler the list elements are evaluated from left to right:
  \<^verbatim>\<open>int(timeArr[0])\<close>, then \<^verbatim>\<open>timeArr[1]\<close>, then \<^verbatim>\<open>timeArr[2]\<close>; an exception there
  propagates.
\<close>

definition arrival_HM :: "string \<Rightarrow> py_error + string" where
  "arrival_HM t =
     (case strptime_HMS t of
        Inr (h, m, sec) \<Rightarrow> Inr (strftime_HM h m)
      | Inl e \<Rightarrow>
          (if e \<noteq> ValueError then Inl e
           else
             let timeArr = split CHR '':'' t in
             case get timeArr 0 of Inl e \<Rightarrow> Inl e | Inr a0 \<Rightarrow>
            (case py_int a0 of Inl e \<Rightarrow> Inl e | Inr n \<Rightarrow>
            (case get timeArr 1 of Inl e \<Rightarrow> Inl e | Inr a1 \<Rightarrow>
            (case get timeArr 2 of Inl e \<Rightarrow> Inl e | Inr a2 \<Rightarrow>
            (case strptime_HMS (py_str (n - 24) @ '':'' @ a1 @ '':'' @ a2) of
               Inl e \<Rightarrow> Inl e
             | Inr (h, m, sec) \<Rightarrow> Inr (strftime_HM h m)))))))"

definition schedule_style_direction :: "string \<Rightarrow> string" where
  "schedule_style_direction direction = (if direction = ''OUTBOUND'' then ''0'' else ''1'')"

text \<open>
  The condition of the first loop,
  \<^verbatim>\<open>stop[1] == route_id and stop[3] == schedule_style_direction and stop[4].startswith(scheduled_start_time)\<close>:
  \<^verbatim>\<open>and\<close> evaluates its right operand only when the left one is true.
\<close>

definition row_matches :: "string list \<Rightarrow> string \<Rightarrow> string \<Rightarrow> string \<Rightarrow> py_error + bool" where
  "row_matches stop route_id direction scheduled_start_time =
     (case get stop 1 of Inl e \<Rightarrow> Inl e | Inr r \<Rightarrow>
        if r \<noteq> route_id then Inr False
        else (case get stop 3 of Inl e \<Rightarrow> Inl e | Inr d \<Rightarrow>
          if d \<noteq> schedule_style_direction direction then Inr False
          else (case get stop 4 of Inl e \<Rightarrow> Inl e | Inr t \<Rightarrow>
            Inr (startswith t scheduled_start_time))))"

text \<open>
  The first loop, \<^verbatim>\<open>for i in range(1, len(lines))\<close>, from index \<open>i\<close> on. Its result is the
  value of \<open>i\<close> when the loop is left: the index of the \<^verbatim>\<open>break\<close>, or the last index of
  the range when the loop runs to its end.
\<close>

function first_loop :: "string list \<Rightarrow> string \<Rightarrow> string \<Rightarrow> string \<Rightarrow> nat \<Rightarrow> py_error + nat" where
  "first_loop lines route_id direction scheduled_start_time i =
     (if length lines \<le> i then Inr (i - 1)
      else
        case row_matches (split CHR '','' (strip (lines ! i))) route_id direction
               scheduled_start_time of
          Inl e \<Rightarrow> Inl e
        | Inr False \<Rightarrow> first_loop lines route_id direction scheduled_start_time (Suc i)
        | Inr True \<Rightarrow>
            (if i = 1 then Inr i
             else
               (case get (split CHR '','' (lines ! (i - 1))) 1 of
                  Inl e \<Rightarrow> Inl e
                | Inr prev_line_route_id \<Rightarrow>
                    (if prev_line_route_id \<noteq> route_id then Inr i
                     else first_loop lines route_id direction scheduled_start_time (Suc i)))))"
  by pat_completeness auto
termination
  by (relation "measure (\<lambda>(lines, route_id, direction, scheduled_start_time, i). length lines - i)")
     auto

text \<open>
  The second loop, \<^verbatim>\<open>for j in range(i + 1, len(lines))\<close>, from index \<open>j\<close> on; \<open>None\<close> when
  the loop ends and the function returns nothing.
\<close>

function second_loop :: "string list \<Rightarrow> string \<Rightarrow> nat \<Rightarrow> py_error + string option" where
  "second_loop lines stop_id j =
     (if length lines \<le> j then Inr None
      else
        let stop = split CHR '','' (strip (lines ! j)) in
        case get stop 6 of
          Inl e \<Rightarrow> Inl e
        | Inr s \<Rightarrow>
            (if s = stop_id
             then (case get stop 4 of
                     Inl e \<Rightarrow> Inl e
                   | Inr t \<Rightarrow> (case arrival_HM t of Inl e \<Rightarrow> Inl e | Inr hm \<Rightarrow> Inr (Some hm)))
             else second_loop lines stop_id (Suc j)))"
  by pat_completeness auto
termination
  by (relation "measure (\<lambda>(lines, stop_id, j). length lines - j)") auto

text \<open>
  \<open>lines\<close> is what \<^verbatim>\<open>schedule.readlines()\<close> returns. With fewer than two lines the
  first loop has no iteration, \<open>i\<close> is never bound, and \<^verbatim>\<open>range(i + 1, len(lines))\<close>
  raises UnboundLocalError.
\<close>

definition find_scheduled_arrival_time ::
  "string list \<Rightarrow> string \<Rightarrow> string \<Rightarrow> string \<Rightarrow> string \<Rightarrow> py_error + string option" where
  "find_scheduled_arrival_time lines stop_id route_id direction scheduled_start_time =
     (if length lines \<le> 1 then Inl UnboundLocalError
      else
        case first_loop lines route_id direction scheduled_start_time 1 of
          Inl e \<Rightarrow> Inl e
        | Inr i \<Rightarrow> second_loop lines stop_id (i + 1))"

section \<open>The Schedule Matcher: \<^verbatim>\<open>log_scheduled_arrival_times\<close>\<close>

text \<open>
  The body of the loop \<^verbatim>\<open>for i in range(1, len(lines))\<close> for one line \<open>l\<close> of the
  history file: the line to append to \<^verbatim>\<open>new_lines\<close>, or \<open>None\<close> when nothing is
  appended. \<open>schedule\<close> is the content of the schedule file, which each call of
  \<^verbatim>\<open>find_scheduled_arrival_time\<close> reads again.
\<close>

definition matcher_row :: "string list \<Rightarrow> string \<Rightarrow> py_error + string option" where
  "matcher_row schedule l =
     (let line = strip l; lst = split CHR '','' line in
      if length lst = 10 then Inr (Some (line @ newline))
      else
        case get lst 3 of Inl e \<Rightarrow> Inl e | Inr stop_id \<Rightarrow>
       (case get lst 4 of Inl e \<Rightarrow> Inl e | Inr route_id \<Rightarrow>
       (case get lst 5 of Inl e \<Rightarrow> Inl e | Inr direction \<Rightarrow>
       (case get lst 7 of Inl e \<Rightarrow> Inl e | Inr scheduled_start_time \<Rightarrow>
       (case find_scheduled_arrival_time schedule stop_id route_id direction
               scheduled_start_time of
          Inl e \<Rightarrow> Inl e
        | Inr None \<Rightarrow> Inr None
        | Inr (Some scheduled_arrival_time) \<Rightarrow>
            Inr (Some (line @ '','' @ scheduled_arrival_time @ newline)))))))"

text \<open>The loop over the lines after the first, with its variable \<^verbatim>\<open>new_lines\<close>.\<close>

fun matcher_loop :: "string list \<Rightarrow> string list \<Rightarrow> string list \<Rightarrow> py_error + string list" where
  "matcher_loop schedule [] new_lines = Inr new_lines"
| "matcher_loop schedule (l # ls) new_lines =
     (case matcher_row schedule l of
        Inl e \<Rightarrow> Inl e
      | Inr None \<Rightarrow> matcher_loop schedule ls new_lines
      | Inr (Some new_line) \<Rightarrow> matcher_loop schedule ls (new_lines @ [new_line]))"

text \<open>
  The whole pass, as a step on the history file: \<^verbatim>\<open>lines[0]\<close> raises IndexError on a file
  with no line, and an exception anywhere before the final write leaves the file as it
  was.
\<close>

definition log_scheduled_arrival_times ::
  "string list \<Rightarrow> string list \<Rightarrow> (py_error + unit) \<times> string list" where
  "log_scheduled_arrival_times schedule history =
     (case get history 0 of
        Inl e \<Rightarrow> (Inl e, history)
      | Inr header \<Rightarrow>
          (case matcher_loop schedule (drop 1 history) [header] of
             Inl e \<Rightarrow> (Inl e, history)
           | Inr new_lines \<Rightarrow> (Inr (), new_lines)))"

section \<open>Scheduled-time conversion: \<^verbatim>\<open>convert_scheduled_start_date_time\<close>\<close>

text \<open>
  Calendar dates of \<^verbatim>\<open>datetime\<close>: the proleptic Gregorian calendar, years 1 to 9999.
\<close>

datatype date = Date (year: nat) (month: nat) (day: nat)

definition is_leap :: "nat \<Rightarrow> bool" where
  "is_leap y = (y mod 4 = 0 \<and> (y mod 100 \<noteq> 0 \<or> y mod 400 = 0))"

definition days_in_month :: "nat \<Rightarrow> nat \<Rightarrow> nat" where
  "days_in_month y m =
     (if m = 2 then (if is_leap y then 29 else 28)
      else if m = 4 \<or> m = 6 \<or> m = 9 \<or> m = 11 then 30 else 31)"

definition valid_date :: "date \<Rightarrow> bool" where
  "valid_date d =
     (1 \<le> year d \<and> year d \<le> 9999 \<and> 1 \<le> month d \<and> month d \<le> 12 \<and>
      1 \<le> day d \<and> day d \<le> days_in_month (year d) (month d))"

text \<open>
  \<^verbatim>\<open>datetime.strptime(s, '%Y-%m-%d')\<close>. The directives match \<^verbatim>\<open>\d\d\d\d\<close>,
  \<^verbatim>\<open>1[0-2]|0[1-9]|[1-9]\<close> and \<^verbatim>\<open>3[0-1]|[1-2]\d|0[1-9]|[1-9]| [1-9]\<close> (a day may be a
  blank and a digit), the whole string must be consumed, and the \<^verbatim>\<open>datetime\<close>
  constructor refuses a date that is not in the calendar. Every failure is a ValueError.
\<close>

definition day_field :: "string \<Rightarrow> nat option" where
  "day_field s =
     (if length s = 2 \<and> hd s = CHR '' '' \<and> is_digit (s ! 1) then Some (digit_val (s ! 1))
      else num_1_2 s)"

definition strptime_Ymd :: "string \<Rightarrow> py_error + date" where
  "strptime_Ymd s =
     (case split CHR ''-'' s of
        [a, b, c] \<Rightarrow>
          (if length a = 4 \<and> list_all is_digit a then
             (case (num_1_2 b, day_field c) of
                (Some m, Some d) \<Rightarrow>
                  (if valid_date (Date (digits_val a) m d) then Inr (Date (digits_val a) m d)
                   else Inl ValueError)
              | _ \<Rightarrow> Inl ValueError)
           else Inl ValueError)
      | _ \<Rightarrow> Inl ValueError)"

text \<open>
  The day after and the day before a date, and a date moved by a number of days:
  \<^verbatim>\<open>date.fromordinal(d.toordinal() + n)\<close>, which raises OverflowError when the result
  leaves the years 1 to 9999.
\<close>

definition next_day :: "date \<Rightarrow> date" where
  "next_day d =
     (if day d < days_in_month (year d) (month d) then Date (year d) (month d) (day d + 1)
      else if month d < 12 then Date (year d) (month d + 1) 1
      else Date (year d + 1) 1 1)"

definition prev_day :: "date \<Rightarrow> date" where
  "prev_day d =
     (if 1 < day d then Date (year d) (month d) (day d - 1)
      else if 1 < month d
        then Date (year d) (month d - 1) (days_in_month (year d) (month d - 1))
      else Date (year d - 1) 12 31)"

fun add_days :: "date \<Rightarrow> nat \<Rightarrow> py_error + date" where
  "add_days d 0 = Inr d"
| "add_days d (Suc n) =
     (if d = Date 9999 12 31 then Inl OverflowError else add_days (next_day d) n)"

fun sub_days :: "date \<Rightarrow> nat \<Rightarrow> py_error + date" where
  "sub_days d 0 = Inr d"
| "sub_days d (Suc n) =
     (if d = Date 1 1 1 then Inl OverflowError else sub_days (prev_day d) n)"

text \<open>
  \<^verbatim>\<open>original_date + timedelta(seconds=n)\<close>, where \<^verbatim>\<open>original_date\<close> is a date at
  00:00:00. The timedelta is normalised to \<open>n div 86400\<close> days (rounded down) and
  \<open>n mod 86400\<close> seconds; the result is the date moved by the days, with the hour and the
  minute of the remaining seconds. (A timedelta of more than 999999999 days raises
  OverflowError as well, and lies beyond every date.)
\<close>

definition datetime_add_seconds :: "date \<Rightarrow> int \<Rightarrow> py_error + (date \<times> nat \<times> nat)" where
  "datetime_add_seconds original_date n =
     (let days = n div 86400; secs = nat (n mod 86400) in
      case (if 0 \<le> days then add_days original_date (nat days)
            else sub_days original_date (nat (- days))) of
        Inl e \<Rightarrow> Inl e
      | Inr d \<Rightarrow> Inr (d, secs div 3600, secs mod 3600 div 60))"

definition pad4 :: "nat \<Rightarrow> string" where
  "pad4 n = pad2 (n div 100) @ pad2 (n mod 100)"

text \<open>The order of the calendar, and the text \<^verbatim>\<open>%Y-%m-%d\<close> of a date.\<close>

definition date_before :: "date \<Rightarrow> date \<Rightarrow> bool" where
  "date_before a b =
     (year a < year b \<or>
      (year a = year b \<and> (month a < month b \<or> (month a = month b \<and> day a < day b))))"

definition strftime_Ymd :: "date \<Rightarrow> string" where
  "strftime_Ymd d = pad4 (year d) @ ''-'' @ pad2 (month d) @ ''-'' @ pad2 (day d)"

text \<open>
  \<^verbatim>\<open>.strftime('%Y-%m-%d %H:%M')\<close>, the year written with four digits (the C library of
  some platforms writes a year below 1000 without its leading zeros).
\<close>

definition strftime_Ymd_HM :: "date \<Rightarrow> nat \<Rightarrow> nat \<Rightarrow> string" where
  "strftime_Ymd_HM d h m =
     strftime_Ymd d @ '' '' @ strftime_HM h m"

definition convert_scheduled_start_date_time ::
  "string \<Rightarrow> string \<Rightarrow> py_error + (string \<times> string)" where
  "convert_scheduled_start_date_time date_str seconds_str =
     (case strptime_Ymd date_str of Inl e \<Rightarrow> Inl e | Inr original_date \<Rightarrow>
     (case py_int seconds_str of Inl e \<Rightarrow> Inl e | Inr n \<Rightarrow>
     (case datetime_add_seconds original_date n of Inl e \<Rightarrow> Inl e | Inr (d, h, m) \<Rightarrow>
        let lst = split CHR '' '' (strftime_Ymd_HM d h m) in
        case get lst 0 of Inl e \<Rightarrow> Inl e | Inr date_str' \<Rightarrow>
       (case get lst 1 of Inl e \<Rightarrow> Inl e | Inr time_str \<Rightarrow>
          if startswith time_str ''00:''
          then (case get (split CHR '':'' time_str) 1 of
                  Inl e \<Rightarrow> Inl e
                | Inr minute \<Rightarrow> Inr (date_str', ''24:'' @ minute))
          else Inr (date_str', time_str)))))"

section \<open>The Timetable Builder: \<^verbatim>\<open>mergeStopTimesAndTrips\<close>\<close>

text \<open>
  A GTFS table is given by the rows of its file after the title row, each row reduced to
  the four columns that \<^verbatim>\<open>usecols\<close> names (a cell is a byte string, cut to 100 bytes by
  the dtype \<^verbatim>\<open>S100\<close>). \<^verbatim>\<open>np.loadtxt\<close> is called without \<^verbatim>\<open>ndmin\<close>, so the shape of the
  array it returns depends on the number of rows: two or more rows give a two-dimensional
  array, a single row gives a one-dimensional array of its four cells, and no row gives
  an empty one-dimensional array.
\<close>

type_synonym row4 = "string \<times> string \<times> string \<times> string"

datatype ndarray = Array1 "string list" | Array2 "row4 list"

definition loadtxt :: "row4 list \<Rightarrow> ndarray" where
  "loadtxt file_rows =
     (case file_rows of
        [] \<Rightarrow> Array1 []
      | [(a, b, c, d)] \<Rightarrow> Array1 [a, b, c, d]
      | _ \<Rightarrow> Array2 file_rows)"

definition readStopTimes :: "row4 list \<Rightarrow> ndarray" where
  "readStopTimes file_rows = loadtxt file_rows"

text \<open>
  The dictionary of \<^verbatim>\<open>readStops\<close> and of \<^verbatim>\<open>readTrips\<close>. The loop over a
  two-dimensional array visits its rows: the key \<^verbatim>\<open>stop[0]\<close> is the cell of column 0 and
  the value is the row. The loop over a one-dimensional array visits its cells: the key
  \<^verbatim>\<open>stop[0]\<close> is then the first byte of the cell, an integer (IndexError for an empty
  cell), and the value is the cell. In both loops an entry is stored only when its key is
  not yet in the dictionary.
\<close>

datatype dictionary = ByRow "string \<rightharpoonup> row4" | ByCell "nat \<rightharpoonup> string"

fun dict_loop :: "row4 list \<Rightarrow> (string \<rightharpoonup> row4) \<Rightarrow> (string \<rightharpoonup> row4)" where
  "dict_loop [] d = d"
| "dict_loop (row # rows) d =
     (if d (fst row) = None then dict_loop rows (d(fst row \<mapsto> row)) else dict_loop rows d)"

fun cell_loop :: "string list \<Rightarrow> (nat \<rightharpoonup> string) \<Rightarrow> py_error + (nat \<rightharpoonup> string)" where
  "cell_loop [] d = Inr d"
| "cell_loop (cell # cells) d =
     (case cell of
        [] \<Rightarrow> Inl IndexError
      | byte # rest \<Rightarrow>
          (if d (of_char byte) = None then cell_loop cells (d(of_char byte \<mapsto> cell))
           else cell_loop cells d))"

definition readStops :: "row4 list \<Rightarrow> py_error + (ndarray \<times> dictionary)" where
  "readStops file_rows =
     (let stops = loadtxt file_rows in
      case stops of
        Array2 rows \<Rightarrow> Inr (stops, ByRow (dict_loop rows Map.empty))
      | Array1 cells \<Rightarrow>
          (case cell_loop cells Map.empty of
             Inl e \<Rightarrow> Inl e
           | Inr stopsDict \<Rightarrow> Inr (stops, ByCell stopsDict)))"

definition readTrips :: "row4 list \<Rightarrow> py_error + (ndarray \<times> dictionary)" where
  "readTrips file_rows =
     (let trips = loadtxt file_rows in
      case trips of
        Array2 rows \<Rightarrow> Inr (trips, ByRow (dict_loop rows Map.empty))
      | Array1 cells \<Rightarrow>
          (case cell_loop cells Map.empty of
             Inl e \<Rightarrow> Inl e
           | Inr tripsDict \<Rightarrow> Inr (trips, ByCell tripsDict)))"

text \<open>
  \<^verbatim>\<open>tripId in tripsDict\<close> and \<^verbatim>\<open>tripsDict[tripId]\<close> for a byte string \<^verbatim>\<open>tripId\<close>: a byte
  string is equal to no integer, so a dictionary with integer keys has no entry for it.
\<close>

definition dict_get :: "dictionary \<Rightarrow> string \<Rightarrow> row4 option" where
  "dict_get d k = (case d of ByRow m \<Rightarrow> m k | ByCell m \<Rightarrow> None)"

text \<open>The float zero of \<^verbatim>\<open>np.zeros\<close>, as it is stored in an array of byte strings.\<close>

definition zero_cell :: string where
  "zero_cell = ''0.0''"

definition titles :: "string list" where
  "titles = [''trip_id'', ''route_id'', ''service_id'', ''route_direction'', ''arrival_time'',
             ''departure_time'', ''stop_id'', ''stop_name'', ''stop_latitude'',
             ''stop_longitude'']"

text \<open>
  One row of the two-dimensional \<^verbatim>\<open>stopsTimes\<close>: three zero columns inserted at column
  1, three appended, then the body of the loop \<^verbatim>\<open>for stop in stopsTimes\<close>.
\<close>

definition merge_row :: "dictionary \<Rightarrow> dictionary \<Rightarrow> row4 \<Rightarrow> string list" where
  "merge_row tripsDict stopsDict st =
     (case st of (trip_id, arrival_time, departure_time, stop_id) \<Rightarrow>
        let stop = [trip_id, zero_cell, zero_cell, zero_cell, arrival_time, departure_time,
                    stop_id, zero_cell, zero_cell, zero_cell];
            tripId = stop ! 0;
            stopId = stop ! 6;
            stop = (case dict_get tripsDict tripId of
                      None \<Rightarrow> stop
                    | Some trip \<Rightarrow>
                        stop[1 := fst (snd trip), 2 := fst (snd (snd trip)),
                             3 := snd (snd (snd trip))]);
            stop = (case dict_get stopsDict stopId of
                      None \<Rightarrow> stop
                    | Some s \<Rightarrow>
                        stop[7 := fst (snd s), 8 := fst (snd (snd s)),
                             9 := snd (snd (snd s))])
        in stop)"

text \<open>
  \<^verbatim>\<open>mergeStopTimesAndTrips\<close>, with the rows of the three files as arguments. The three
  tables are read first. \<^verbatim>\<open>np.insert(stopsTimes, 1, zeros, axis=1)\<close> raises AxisError
  when \<^verbatim>\<open>stopsTimes\<close> is one-dimensional; otherwise the result is the title row, then
  one row for each row of stop_times.
\<close>

definition mergeStopTimesAndTrips ::
  "row4 list \<Rightarrow> row4 list \<Rightarrow> row4 list \<Rightarrow> py_error + string list list" where
  "mergeStopTimesAndTrips stop_times_file trips_file stops_file =
     (let stopsTimes = readStopTimes stop_times_file in
      case readTrips trips_file of Inl e \<Rightarrow> Inl e | Inr (trips, tripsDict) \<Rightarrow>
     (case readStops stops_file of Inl e \<Rightarrow> Inl e | Inr (stops, stopsDict) \<Rightarrow>
     (case stopsTimes of
        Array1 cells \<Rightarrow> Inl AxisError
      | Array2 rows \<Rightarrow> Inr (titles # map (merge_row tripsDict stopsDict) rows))))"

section \<open>The specification's words, for comparison\<close>

text \<open>
  The key of a line of the history file as the specification names it: trip_id, stop_id
  and scheduled_start_date are fields 0, 3 and 6 of the comma-separated line.
\<close>

definition spec_key :: "string \<Rightarrow> combo" where
  "spec_key line = (let f = split CHR '','' (strip line) in (f ! 0, f ! 3, f ! 6))"

text \<open>
  Of the lines that share a key, the one written last is the only one kept, and the
  lines kept stay in the order of the file: a line is kept exactly when no later line
  has its key.
\<close>

fun spec_keep_last :: "('a \<Rightarrow> 'k) \<Rightarrow> 'a list \<Rightarrow> 'a list" where
  "spec_keep_last key [] = []"
| "spec_keep_last key (x # xs) =
     (if key x \<in> key ` set xs then spec_keep_last key xs else x # spec_keep_last key xs)"

text \<open>
  A row of the timetable that belongs to the wanted trip: at least five fields, the
  route_id in field 1, the direction (\<^verbatim>\<open>0\<close> for OUTBOUND, \<^verbatim>\<open>1\<close> otherwise) in field 3, and
  an arrival_time in field 4 that starts with the scheduled start time.
\<close>

definition spec_trip_row :: "string \<Rightarrow> string \<Rightarrow> string \<Rightarrow> string \<Rightarrow> bool" where
  "spec_trip_row line route_id direction scheduled_start_time =
     (let stop = split CHR '','' (strip line) in
      5 \<le> length stop \<and> stop ! 1 = route_id \<and>
      stop ! 3 = (if direction = ''OUTBOUND'' then ''0'' else ''1'') \<and>
      startswith (stop ! 4) scheduled_start_time)"

text \<open>
  Row \<open>i\<close> starts a block of the wanted trip: it is such a row, and it is the first row
  after the title row or the row before it is of another route.
\<close>

definition spec_block_start :: "string list \<Rightarrow> string \<Rightarrow> string \<Rightarrow> string \<Rightarrow> nat \<Rightarrow> bool" where
  "spec_block_start lines route_id direction scheduled_start_time i =
     (1 \<le> i \<and> i < length lines \<and>
      spec_trip_row (lines ! i) route_id direction scheduled_start_time \<and>
      (i = 1 \<or>
       (let prev = split CHR '','' (lines ! (i - 1)) in
        2 \<le> length prev \<and> prev ! 1 \<noteq> route_id)))"

section \<open>Example files\<close>

text \<open>
  A schedule file as the Timetable Builder writes it: the title row, a trip of route 61A
  that starts at 06:35, then a trip of route 71C.
\<close>

definition example_schedule :: "string list" where
  "example_schedule = map (\<lambda>s. s @ newline)
    [''trip_id,route_id,service_id,route_direction,arrival_time,departure_time,stop_id,stop_name,stop_latitude,stop_longitude'',
     ''T1,61A,WK,0,06:35:00,06:35:00,1000,Stop A,40.1,-79.1'',
     ''T1,61A,WK,0,06:42:00,06:42:00,1177,Stop B,40.2,-79.2'',
     ''T1,61A,WK,0,25:10:00,25:10:00,1200,Stop C,40.3,-79.3'',
     ''T1,61A,WK,0,48:05:00,48:05:00,1300,Stop D,40.4,-79.4'',
     ''T9,71C,WK,0,09:00:00,09:00:00,3000,Stop E,40.5,-79.5'',
     ''T9,71C,WK,0,09:10:00,09:10:00,1000,Stop A,40.1,-79.1'']"


text \<open>
  A schedule file in which a later row of the trip has the stop of its first row and no
  arrival_time (a stop that is not a timepoint).
\<close>

definition example_schedule_blank_time :: "string list" where
  "example_schedule_blank_time = map (\<lambda>s. s @ newline)
    [''trip_id,route_id,service_id,route_direction,arrival_time,departure_time,stop_id,stop_name,stop_latitude,stop_longitude'',
     ''T1,61A,WK,0,06:35:00,06:35:00,1000,Stop A,40.1,-79.1'',
     ''T1,61A,WK,0,06:42:00,06:42:00,1177,Stop B,40.2,-79.2'',
     ''T1,61A,WK,0,,,1000,Stop A,40.1,-79.1'']"

text \<open>
  A schedule file in which the trip of route 61A that starts at 06:35 comes after a trip
  of route 71C with the same start time, and is followed by the next trip of route 61A.
\<close>

definition example_schedule_later_block :: "string list" where
  "example_schedule_later_block = map (\<lambda>s. s @ newline)
    [''trip_id,route_id,service_id,route_direction,arrival_time,departure_time,stop_id,stop_name,stop_latitude,stop_longitude'',
     ''T9,71C,WK,0,06:35:00,06:35:00,3000,Stop E,40.5,-79.5'',
     ''T9,71C,WK,0,06:44:00,06:44:00,1177,Stop B,40.2,-79.2'',
     ''T1,61A,WK,0,06:35:00,06:35:00,1000,Stop A,40.1,-79.1'',
     ''T1,61A,WK,0,06:42:00,06:42:00,1177,Stop B,40.2,-79.2'',
     ''T1,61A,WK,0,25:10:00,25:10:00,1200,Stop C,40.3,-79.3'',
     ''T2,61A,WK,0,07:35:00,07:35:00,1000,Stop A,40.1,-79.1'']"

declare first_loop.simps [simp del] second_loop.simps [simp del] nat_digits.simps [simp del]

section \<open>What the Deduplicator computes\<close>

lemma line_key_Inr_iff:
  "(\<exists>k. line_key line = Inr k) \<longleftrightarrow> 7 \<le> length (split CHR '','' (strip line))"
  by (auto simp: line_key_def get_def Let_def split: sum.splits)

lemma line_key_Inl:
  "line_key line = Inl e \<Longrightarrow> e = IndexError \<and> length (split CHR '','' (strip line)) < 7"
  by (auto simp: line_key_def get_def Let_def split: sum.splits if_splits)

lemma line_key_short:
  "length (split CHR '','' (strip line)) < 7 \<Longrightarrow> line_key line = Inl IndexError"
  by (auto simp: line_key_def get_def Let_def split: sum.splits if_splits)

text \<open>On lines that all have a key, the loop appends the first line of every new key.\<close>

lemma dedup_loop_firsts:
  "\<forall>l\<in>set xs. \<exists>k. line_key l = Inr k \<Longrightarrow>
   dedup_loop xs seen u = Inr (u @ firsts line_key (Inr ` seen) xs)"
proof (induction xs arbitrary: seen u)
  case Nil
  then show ?case by simp
next
  case (Cons x xs)
  then obtain k where k: "line_key x = Inr k" by auto
  from Cons.prems have rest: "\<forall>l\<in>set xs. \<exists>k. line_key l = Inr k" by simp
  show ?case
    using Cons.IH [OF rest] k by (auto simp: image_iff)
qed

text \<open>
  A line with fewer than seven fields anywhere in the file ends the loop with IndexError:
  no subscript raises the ValueError that the handler catches.
\<close>

lemma dedup_loop_short:
  "l \<in> set xs \<Longrightarrow> length (split CHR '','' (strip l)) < 7 \<Longrightarrow>
   dedup_loop xs seen u = Inl IndexError"
proof (induction xs arbitrary: seen u)
  case Nil
  then show ?case by simp
next
  case (Cons x xs)
  show ?case
  proof (cases "line_key x")
    case (Inl e)
    then show ?thesis using line_key_Inl [OF Inl] by simp
  next
    case (Inr k)
    then have "l \<noteq> x" using Cons.prems(2) line_key_short by fastforce
    then have "l \<in> set xs" using Cons.prems(1) by simp
    then show ?thesis using Cons.IH Cons.prems(2) Inr by simp
  qed
qed

lemma firsts_subseq: "subseq (firsts f seen xs) xs"
  by (induction xs arbitrary: seen) auto

lemma firsts_set: "set (firsts f seen xs) \<subseteq> set xs"
  by (induction xs arbitrary: seen) auto

lemma firsts_avoid: "y \<in> set (firsts f seen xs) \<Longrightarrow> f y \<notin> seen"
  by (induction xs arbitrary: seen) (auto split: if_splits)

lemma firsts_distinct: "distinct (map f (firsts f seen xs))"
  by (induction xs arbitrary: seen) (auto dest: firsts_avoid)

lemma firsts_keys: "f ` set (firsts f seen xs) = f ` set xs - seen"
  by (induction xs arbitrary: seen) auto

lemma firsts_hd:
  "y \<in> set (firsts f seen xs) \<Longrightarrow> hd (filter (\<lambda>x. f x = f y) xs) = y"
proof (induction xs arbitrary: seen)
  case Nil
  then show ?case by simp
next
  case (Cons x xs)
  show ?case
  proof (cases "f x \<in> seen")
    case True
    with Cons.prems have y: "y \<in> set (firsts f seen xs)" by simp
    then have "f y \<notin> seen" by (rule firsts_avoid)
    with True have "f x \<noteq> f y" by auto
    with Cons.IH [OF y] show ?thesis by simp
  next
    case False
    show ?thesis
    proof (cases "y = x")
      case True
      then show ?thesis by simp
    next
      case ne: False
      with Cons.prems False have y: "y \<in> set (firsts f (insert (f x) seen) xs)" by simp
      then have "f y \<notin> insert (f x) seen" by (rule firsts_avoid)
      then have "f x \<noteq> f y" by auto
      with Cons.IH [OF y] show ?thesis by simp
    qed
  qed
qed

lemma firsts_fixed:
  "distinct (map f ys) \<Longrightarrow> f ` set ys \<inter> seen = {} \<Longrightarrow> firsts f seen ys = ys"
  by (induction ys arbitrary: seen) auto

lemma last_filter_rev: "last (filter P xs) = hd (filter P (rev xs))"
  by (simp add: hd_rev rev_filter [symmetric])

lemma subseq_rev: "subseq xs ys \<Longrightarrow> subseq (rev xs) (rev ys)"
  by (induction rule: list_emb.induct)
     (auto simp: subseq_rev_drop_many intro: list_emb_append_mono)

text \<open>
  Claim C3. The claim: the Deduplicator keeps a line with too few fields as it is and
  completes. The code: the subscript \<^verbatim>\<open>lst[3]\<close> raises IndexError, which the handler
  \<^verbatim>\<open>except ValueError\<close> does not catch. On a log whose last line was cut after three
  fields the pass ends with IndexError and the file is not rewritten.
\<close>

theorem dedup_short_line_raises:
  "remove_earlier_duplicate_trips
     [first_line,
      ''9001,2023-12-11T06:30,'Fifth Ave at Aiken Ave',1177,61A,OUTBOUND,2023-12-11,06:35,06:40'' @ newline,
      ''9001,2023-12-11T06:31,'Fifth Ave at Ai'']
   = (Inl IndexError,
     [first_line,
      ''9001,2023-12-11T06:30,'Fifth Ave at Aiken Ave',1177,61A,OUTBOUND,2023-12-11,06:35,06:40'' @ newline,
      ''9001,2023-12-11T06:31,'Fifth Ave at Ai''])"
  by code_simp

lemma dedup_completes_iff:
  "(\<exists>out. remove_earlier_duplicate_trips history = (Inr (), out)) \<longleftrightarrow>
   list_all (\<lambda>line. 7 \<le> length (split CHR '','' (strip line))) history"
proof
  assume "\<exists>out. remove_earlier_duplicate_trips history = (Inr (), out)"
  then obtain u where u: "dedup_loop (rev history) {} [] = Inr u"
    by (auto simp: remove_earlier_duplicate_trips_def split: sum.splits)
  show "list_all (\<lambda>line. 7 \<le> length (split CHR '','' (strip line))) history"
  proof (rule ccontr)
    assume "\<not> ?thesis"
    then obtain l where l: "l \<in> set (rev history)" "length (split CHR '','' (strip l)) < 7"
      by (auto simp: list_all_iff not_le)
    from dedup_loop_short [OF l] u show False by simp
  qed
next
  assume "list_all (\<lambda>line. 7 \<le> length (split CHR '','' (strip line))) history"
  then have wf: "\<forall>l\<in>set (rev history). \<exists>k. line_key l = Inr k"
    using line_key_Inr_iff by (auto simp: list_all_iff)
  from dedup_loop_firsts [OF wf, of "{}" "[]"]
  show "\<exists>out. remove_earlier_duplicate_trips history = (Inr (), out)"
    by (simp add: remove_earlier_duplicate_trips_def)
qed

lemma dedup_result:
  assumes "remove_earlier_duplicate_trips history = (Inr (), out)"
  shows "out = rev (firsts line_key {} (rev history))"
proof -
  from assms have "list_all (\<lambda>line. 7 \<le> length (split CHR '','' (strip line))) history"
    using dedup_completes_iff by blast
  then have wf: "\<forall>l\<in>set (rev history). \<exists>k. line_key l = Inr k"
    using line_key_Inr_iff by (auto simp: list_all_iff)
  from dedup_loop_firsts [OF wf, of "{}" "[]"] assms show ?thesis
    by (simp add: remove_earlier_duplicate_trips_def)
qed


text \<open>
  What a completed run writes, in the specification's words: the lines of the input that
  no later line shares its key (trip_id, stop_id, scheduled_start_date) with, in the
  order of the input.
\<close>

lemma line_key_spec_key:
  "7 \<le> length (split CHR '','' (strip line)) \<Longrightarrow> line_key line = Inr (spec_key line)"
  by (auto simp: line_key_def spec_key_def get_def Let_def)

lemma firsts_snoc:
  "firsts f seen (ys @ [x]) =
     firsts f seen ys @ (if f x \<in> seen \<union> f ` set ys then [] else [x])"
  by (induction ys arbitrary: seen) auto

lemma rev_firsts_rev: "rev (firsts f {} (rev xs)) = spec_keep_last f xs"
  by (induction xs) (auto simp: firsts_snoc)

lemma spec_keep_last_cong:
  "\<forall>x\<in>set xs. f x = Inr (g x) \<Longrightarrow> spec_keep_last f xs = spec_keep_last g xs"
proof (induction xs)
  case Nil
  then show ?case by simp
next
  case (Cons x xs)
  have "f x \<in> f ` set xs \<longleftrightarrow> g x \<in> g ` set xs"
    using Cons.prems by (auto simp: image_iff)
  with Cons show ?case by simp
qed

lemma spec_keep_last_properties:
  "distinct (map key (spec_keep_last key xs)) \<and>
   key ` set (spec_keep_last key xs) = key ` set xs \<and>
   subseq (spec_keep_last key xs) xs"
proof -
  have "distinct (map key (rev (firsts key {} (rev xs))))"
    using firsts_distinct [of key "{}" "rev xs"] by (simp add: rev_map [symmetric])
  moreover have "key ` set (rev (firsts key {} (rev xs))) = key ` set xs"
    using firsts_keys [of key "{}" "rev xs"] by simp
  moreover have "subseq (rev (firsts key {} (rev xs))) xs"
    using subseq_rev [OF firsts_subseq [of key "{}" "rev xs"]] by simp
  ultimately show ?thesis by (simp add: rev_firsts_rev)
qed

text \<open>
  By position: the lines kept are those at the indices \<open>i\<close> such that no line at a later
  index has the key of line \<open>i\<close>, in increasing order of \<open>i\<close>.
\<close>

lemma spec_keep_last_positions:
  "spec_keep_last key xs =
     map (\<lambda>i. xs ! i)
       (filter (\<lambda>i. \<forall>j. i < j \<and> j < length xs \<longrightarrow> key (xs ! j) \<noteq> key (xs ! i))
          [0..<length xs])"
proof (induction xs)
  case Nil
  then show ?case by simp
next
  case (Cons x xs)
  define P where
    "P = (\<lambda>i. \<forall>j. i < j \<and> j < length (x # xs) \<longrightarrow> key ((x # xs) ! j) \<noteq> key ((x # xs) ! i))"
  define Q where
    "Q = (\<lambda>i. \<forall>j. i < j \<and> j < length xs \<longrightarrow> key (xs ! j) \<noteq> key (xs ! i))"
  have shift: "P (Suc i) \<longleftrightarrow> Q i" for i
  proof
    assume p: "P (Suc i)"
    show "Q i"
      unfolding Q_def
    proof (intro allI impI)
      fix j assume "i < j \<and> j < length xs"
      then have "Suc i < Suc j \<and> Suc j < length (x # xs)" by simp
      with p have "key ((x # xs) ! Suc j) \<noteq> key ((x # xs) ! Suc i)"
        unfolding P_def by blast
      then show "key (xs ! j) \<noteq> key (xs ! i)" by simp
    qed
  next
    assume q: "Q i"
    show "P (Suc i)"
      unfolding P_def
    proof (intro allI impI)
      fix j assume j: "Suc i < j \<and> j < length (x # xs)"
      then obtain j' where j': "j = Suc j'" by (cases j) auto
      with j have "i < j' \<and> j' < length xs" by simp
      with q have "key (xs ! j') \<noteq> key (xs ! i)" unfolding Q_def by blast
      then show "key ((x # xs) ! j) \<noteq> key ((x # xs) ! Suc i)" by (simp add: j')
    qed
  qed
  have zero: "P 0 \<longleftrightarrow> key x \<notin> key ` set xs"
  proof
    assume p: "P 0"
    show "key x \<notin> key ` set xs"
    proof
      assume "key x \<in> key ` set xs"
      then obtain j where "j < length xs" "key (xs ! j) = key x"
        by (auto simp: in_set_conv_nth)
      then have "0 < Suc j \<and> Suc j < length (x # xs)" "key ((x # xs) ! Suc j) = key ((x # xs) ! 0)"
        by simp_all
      with p show False unfolding P_def by blast
    qed
  next
    assume n: "key x \<notin> key ` set xs"
    show "P 0"
      unfolding P_def
    proof (intro allI impI)
      fix j assume j: "0 < j \<and> j < length (x # xs)"
      then obtain j' where j': "j = Suc j'" by (cases j) auto
      with j have "xs ! j' \<in> set xs" by simp
      with n have "key (xs ! j') \<noteq> key x" by (metis imageI)
      then show "key ((x # xs) ! j) \<noteq> key ((x # xs) ! 0)" by (simp add: j')
    qed
  qed
  have up: "[0..<length (x # xs)] = 0 # map Suc [0..<length xs]"
    by (simp add: upt_conv_Cons map_Suc_upt del: upt_Suc)
  have tl: "map (\<lambda>i. (x # xs) ! i) (filter P (map Suc [0..<length xs])) =
      map (\<lambda>i. xs ! i) (filter Q [0..<length xs])"
    by (simp add: filter_map comp_def shift)
  have "map (\<lambda>i. (x # xs) ! i) (filter P [0..<length (x # xs)]) =
      (if P 0 then [x] else []) @ map (\<lambda>i. xs ! i) (filter Q [0..<length xs])"
    unfolding up using tl by simp
  also have "\<dots> = spec_keep_last key (x # xs)"
    using Cons.IH zero unfolding Q_def by simp
  finally show ?case unfolding P_def by simp
qed

lemma spec_keep_last_example:
  "spec_keep_last fst [(1::nat, ''a''), (2, ''b''), (1, ''a'')] = [(2, ''b''), (1, ''a'')]"
  by simp

lemma dedup_completed_run:
  assumes "remove_earlier_duplicate_trips history = (Inr (), out)"
  shows "out = spec_keep_last spec_key history"
proof -
  from assms have "list_all (\<lambda>line. 7 \<le> length (split CHR '','' (strip line))) history"
    using dedup_completes_iff by blast
  then have k: "\<forall>l\<in>set history. line_key l = Inr (spec_key l)"
    by (simp add: list_all_iff line_key_spec_key)
  from dedup_result [OF assms] have "out = spec_keep_last line_key history"
    by (simp add: rev_firsts_rev)
  with spec_keep_last_cong [OF k] show ?thesis by simp
qed

text \<open>
  The Deduplicator on every log: when every line has at least seven fields it completes
  and writes the lines that no later line shares its key with; otherwise it raises
  IndexError and the file keeps every line.
\<close>

lemma dedup_characterised:
  "remove_earlier_duplicate_trips history =
     (if list_all (\<lambda>line. 7 \<le> length (split CHR '','' (strip line))) history
      then (Inr (), spec_keep_last spec_key history)
      else (Inl IndexError, history))"
proof (cases "list_all (\<lambda>line. 7 \<le> length (split CHR '','' (strip line))) history")
  case True
  then obtain out where "remove_earlier_duplicate_trips history = (Inr (), out)"
    using dedup_completes_iff by blast
  with dedup_completed_run [OF this] True show ?thesis by simp
next
  case False
  then obtain l where "l \<in> set (rev history)" "length (split CHR '','' (strip l)) < 7"
    by (auto simp: list_all_iff not_le)
  from dedup_loop_short [OF this] False show ?thesis
    by (simp add: remove_earlier_duplicate_trips_def)
qed

text \<open>
  Claim C4. The claim: after the Deduplicator has run on any history log, no two rows
  share the key (trip_id, stop_id, scheduled_start_date). The code: on a log with two
  rows of the same key and a last line cut after three fields, \<^verbatim>\<open>lst[3]\<close> raises
  IndexError on the cut line, the handler \<^verbatim>\<open>except ValueError\<close> does not catch it, the
  file is not rewritten, and both rows of the key are still there. This is the defect of
  claim C3; on the logs where the pass completes, the lemmas above give the claim.
\<close>

theorem dedup_raises_keeps_duplicates:
  "remove_earlier_duplicate_trips
     [first_line,
      ''9001,2023-12-11T06:30,'Fifth Ave at Aiken Ave',1177,61A,OUTBOUND,2023-12-11,06:35,06:40'' @ newline,
      ''9001,2023-12-11T06:31,'Fifth Ave at Aiken Ave',1177,61A,OUTBOUND,2023-12-11,06:35,06:41'' @ newline,
      ''9002,2023-12-11T06:32,'Fifth Ave at Ai'']
   = (Inl IndexError,
     [first_line,
      ''9001,2023-12-11T06:30,'Fifth Ave at Aiken Ave',1177,61A,OUTBOUND,2023-12-11,06:35,06:40'' @ newline,
      ''9001,2023-12-11T06:31,'Fifth Ave at Aiken Ave',1177,61A,OUTBOUND,2023-12-11,06:35,06:41'' @ newline,
      ''9002,2023-12-11T06:32,'Fifth Ave at Ai''])
   \<and> spec_key (''9001,2023-12-11T06:30,'Fifth Ave at Aiken Ave',1177,61A,OUTBOUND,2023-12-11,06:35,06:40'' @ newline)
       = (''9001'', ''1177'', ''2023-12-11'')
   \<and> spec_key (''9001,2023-12-11T06:31,'Fifth Ave at Aiken Ave',1177,61A,OUTBOUND,2023-12-11,06:35,06:41'' @ newline)
       = (''9001'', ''1177'', ''2023-12-11'')"
  by code_simp

text \<open>
  Claim C5. Running the Deduplicator on the file it has just written gives the same
  outcome and the same file. (When the first run raises, the file is untouched and the
  second run raises again.)
\<close>

theorem dedup_idempotent:
  "remove_earlier_duplicate_trips (snd (remove_earlier_duplicate_trips history)) =
   remove_earlier_duplicate_trips history"
proof (cases "dedup_loop (rev history) {} []")
  case (Inl e)
  then show ?thesis by (simp add: remove_earlier_duplicate_trips_def)
next
  case (Inr unique_lines)
  have wf: "\<forall>l\<in>set (rev history). \<exists>k. line_key l = Inr k"
  proof (rule ccontr)
    assume "\<not> ?thesis"
    then obtain l where l: "l \<in> set (rev history)" and "\<nexists>k. line_key l = Inr k" by blast
    then have "length (split CHR '','' (strip l)) < 7"
      using line_key_Inr_iff [of l] by simp
    from dedup_loop_short [OF l this] Inr show False by simp
  qed
  let ?u = "firsts line_key {} (rev history)"
  have u: "unique_lines = ?u"
    using dedup_loop_firsts [OF wf, of "{}" "[]"] Inr by simp
  have sub: "set ?u \<subseteq> set (rev history)"
    by (rule firsts_set)
  then have wf': "\<forall>l\<in>set ?u. \<exists>k. line_key l = Inr k" using wf by blast
  have fx: "firsts line_key {} ?u = ?u"
    by (rule firsts_fixed) (simp_all add: firsts_distinct)
  have "dedup_loop (rev (rev ?u)) {} [] = Inr ?u"
    using dedup_loop_firsts [of ?u "{}" "[]"] wf' fx by simp
  then show ?thesis
    using Inr u by (simp add: remove_earlier_duplicate_trips_def)
qed

text \<open>
  Claim C10. On a log with no line the Schedule Matcher raises IndexError at
  \<^verbatim>\<open>lines[0]\<close>, whatever the schedule, and leaves the file as it was; the Deduplicator on
  the same log completes and writes the empty file.
\<close>

theorem empty_log:
  "log_scheduled_arrival_times schedule [] = (Inl IndexError, []) \<and>
   remove_earlier_duplicate_trips [] = (Inr (), [])"
  by (simp add: log_scheduled_arrival_times_def remove_earlier_duplicate_trips_def get_def)

section \<open>What the Schedule Matcher computes\<close>


lemma second_loop_some:
  "second_loop lines stop_id j0 = Inr (Some t) \<Longrightarrow>
   \<exists>j a. j0 \<le> j \<and> j < length lines \<and>
     get (split CHR '','' (strip (lines ! j))) 6 = Inr stop_id \<and>
     get (split CHR '','' (strip (lines ! j))) 4 = Inr a \<and> arrival_HM a = Inr t \<and>
     (\<forall>k. j0 \<le> k \<and> k < j \<longrightarrow>
        (\<exists>s. get (split CHR '','' (strip (lines ! k))) 6 = Inr s \<and> s \<noteq> stop_id))"
proof (induction lines stop_id j0 rule: second_loop.induct)
  case (1 lines stop_id j)
  from "1.prems" have lt: "j < length lines"
    by (subst (asm) second_loop.simps) (auto split: if_splits)
  from "1.prems" lt obtain s where s: "get (split CHR '','' (strip (lines ! j))) 6 = Inr s"
    by (subst (asm) second_loop.simps) (auto simp: Let_def split: sum.splits)
  show ?case
  proof (cases "s = stop_id")
    case True
    with "1.prems" lt s obtain a where
      "get (split CHR '','' (strip (lines ! j))) 4 = Inr a" "arrival_HM a = Inr t"
      by (subst (asm) second_loop.simps) (auto simp: Let_def split: sum.splits)
    with True s lt show ?thesis by (intro exI [of _ j]) auto
  next
    case False
    with "1.prems" lt s have rec: "second_loop lines stop_id (Suc j) = Inr (Some t)"
      by (subst (asm) second_loop.simps) (auto simp: Let_def)
    from "1.IH" [OF _ _ s False rec] lt
    obtain j' a where j': "Suc j \<le> j'" "j' < length lines"
      "get (split CHR '','' (strip (lines ! j'))) 6 = Inr stop_id"
      "get (split CHR '','' (strip (lines ! j'))) 4 = Inr a" "arrival_HM a = Inr t"
      "\<forall>k. Suc j \<le> k \<and> k < j' \<longrightarrow>
        (\<exists>s. get (split CHR '','' (strip (lines ! k))) 6 = Inr s \<and> s \<noteq> stop_id)"
      by auto
    have "\<forall>k. j \<le> k \<and> k < j' \<longrightarrow>
        (\<exists>s. get (split CHR '','' (strip (lines ! k))) 6 = Inr s \<and> s \<noteq> stop_id)"
    proof (intro allI impI)
      fix k assume k: "j \<le> k \<and> k < j'"
      show "\<exists>s. get (split CHR '','' (strip (lines ! k))) 6 = Inr s \<and> s \<noteq> stop_id"
      proof (cases "k = j")
        case True
        with s False show ?thesis by auto
      next
        case False
        with k have "Suc j \<le> k \<and> k < j'" by auto
        with j'(6) show ?thesis by blast
      qed
    qed
    with j' show ?thesis by (intro exI [of _ j']) auto
  qed
qed

lemma second_loop_skip:
  "j0 \<le> j \<Longrightarrow> j \<le> length lines \<Longrightarrow>
   \<forall>k. j0 \<le> k \<and> k < j \<longrightarrow>
        (\<exists>s. get (split CHR '','' (strip (lines ! k))) 6 = Inr s \<and> s \<noteq> stop_id) \<Longrightarrow>
   second_loop lines stop_id j0 = second_loop lines stop_id j"
proof (induction "j - j0" arbitrary: j0)
  case 0
  then show ?case by simp
next
  case (Suc n)
  then have lt: "j0 < j" by simp
  with Suc.prems obtain s where
    s: "get (split CHR '','' (strip (lines ! j0))) 6 = Inr s" "s \<noteq> stop_id"
    by (metis order.refl)
  have "second_loop lines stop_id j0 = second_loop lines stop_id (Suc j0)"
    using lt Suc.prems(2) s by (subst second_loop.simps) (simp add: Let_def)
  also have "\<dots> = second_loop lines stop_id j"
    using Suc.hyps Suc.prems lt by (intro Suc.hyps(1)) auto
  finally show ?case .
qed

lemma second_loop_hit:
  assumes "j0 \<le> j" "j < length lines"
    and "\<forall>k. j0 \<le> k \<and> k < j \<longrightarrow>
        (\<exists>s. get (split CHR '','' (strip (lines ! k))) 6 = Inr s \<and> s \<noteq> stop_id)"
    and "get (split CHR '','' (strip (lines ! j))) 6 = Inr stop_id"
    and "get (split CHR '','' (strip (lines ! j))) 4 = Inr a"
  shows "second_loop lines stop_id j0 =
           (case arrival_HM a of Inl e \<Rightarrow> Inl e | Inr hm \<Rightarrow> Inr (Some hm))"
proof -
  have "second_loop lines stop_id j0 = second_loop lines stop_id j"
    using assms(1-3) by (intro second_loop_skip) auto
  also have "\<dots> = (case arrival_HM a of Inl e \<Rightarrow> Inl e | Inr hm \<Rightarrow> Inr (Some hm))"
    using assms(2,4,5) by (subst second_loop.simps) (simp add: Let_def)
  finally show ?thesis .
qed

lemma second_loop_none:
  assumes "\<forall>k. j0 \<le> k \<and> k < length lines \<longrightarrow>
        (\<exists>s. get (split CHR '','' (strip (lines ! k))) 6 = Inr s \<and> s \<noteq> stop_id)"
  shows "second_loop lines stop_id j0 = Inr None"
proof (cases "j0 \<le> length lines")
  case True
  have "second_loop lines stop_id j0 = second_loop lines stop_id (length lines)"
    using True assms by (intro second_loop_skip) auto
  then show ?thesis by (subst (asm) (2) second_loop.simps) simp
next
  case False
  then show ?thesis by (subst second_loop.simps) simp
qed

lemma first_loop_step:
  "i0 < length lines \<Longrightarrow> first_loop lines route_id direction sst i0 = Inr i \<Longrightarrow>
   i = i0 \<or> first_loop lines route_id direction sst (Suc i0) = Inr i"
  by (subst (asm) first_loop.simps) (auto split: if_splits sum.splits bool.splits)

lemma first_loop_range:
  "i0 < length lines \<Longrightarrow> first_loop lines route_id direction sst i0 = Inr i \<Longrightarrow>
   i0 \<le> i \<and> i < length lines"
proof (induction "length lines - i0" arbitrary: i0)
  case 0
  then show ?case by simp
next
  case (Suc n)
  from first_loop_step [OF Suc.prems] show ?case
  proof
    assume "i = i0"
    with Suc.prems show ?thesis by simp
  next
    assume rec: "first_loop lines route_id direction sst (Suc i0) = Inr i"
    show ?thesis
    proof (cases "Suc i0 < length lines")
      case True
      have "n = length lines - Suc i0" using Suc.hyps(2) by simp
      from Suc.hyps(1) [OF this True rec] show ?thesis by simp
    next
      case False
      then have "first_loop lines route_id direction sst (Suc i0) = Inr i0"
        by (subst first_loop.simps) simp
      with rec Suc.prems show ?thesis by simp
    qed
  qed
qed


lemma split_acc_no_sep: "sep \<notin> set xs \<Longrightarrow> split_acc sep acc xs = [rev acc @ xs]"
  by (induction xs arbitrary: acc) auto

lemma split_acc_sep:
  "sep \<notin> set xs \<Longrightarrow> split_acc sep acc (xs @ sep # ys) = (rev acc @ xs) # split_acc sep [] ys"
  by (induction xs arbitrary: acc) auto

lemma split_no_sep: "sep \<notin> set xs \<Longrightarrow> split sep xs = [xs]"
  by (simp add: split_def split_acc_no_sep)

lemma split_sep: "sep \<notin> set xs \<Longrightarrow> split sep (xs @ sep # ys) = xs # split sep ys"
  by (simp add: split_def split_acc_sep)

lemma of_char_digit_char: "n < 10 \<Longrightarrow> (of_char (digit_char n) :: nat) = 48 + n"
  by (simp add: digit_char_def)

lemma is_digit_digit_char: "n < 10 \<Longrightarrow> is_digit (digit_char n)"
  by (simp add: is_digit_def of_char_digit_char)

lemma digit_val_digit_char: "n < 10 \<Longrightarrow> digit_val (digit_char n) = n"
  by (simp add: digit_val_def of_char_digit_char)

lemma is_digit_not:
  "is_digit c \<Longrightarrow> c \<noteq> CHR '':'' \<and> c \<noteq> CHR ''-'' \<and> c \<noteq> CHR ''+'' \<and> c \<noteq> CHR ''_'' \<and>
     c \<noteq> CHR '' '' \<and> c \<noteq> CHR '','' \<and> \<not> is_space c \<and> \<not> is_c_space c"
  by (auto simp: is_digit_def is_space_def is_c_space_def Let_def)

lemma strip_digits: "s \<noteq> [] \<Longrightarrow> list_all is_digit s \<Longrightarrow> strip s = s"
proof -
  assume ne: "s \<noteq> []" and d: "list_all is_digit s"
  then have h: "\<not> is_space (hd s)" and l: "\<not> is_space (last s)"
    using is_digit_not by (auto simp: list_all_iff)
  from ne h have "dropWhile is_space s = s" by (cases s) auto
  moreover from ne l have "dropWhile is_space (rev s) = rev s"
    by (cases "rev s") (auto simp: last_rev [symmetric] hd_rev)
  ultimately show ?thesis by (simp add: strip_def)
qed

lemma pad2_digits: "n < 100 \<Longrightarrow> list_all is_digit (pad2 n)"
  by (simp add: pad2_def is_digit_digit_char)

lemma digits_val_pad2: "n < 100 \<Longrightarrow> digits_val (pad2 n) = n"
  by (simp add: pad2_def digits_val_def digit_val_digit_char)

lemma num_1_2_pad2: "n < 100 \<Longrightarrow> num_1_2 (pad2 n) = Some n"
  using pad2_digits [of n] digits_val_pad2 [of n] by (simp add: num_1_2_def pad2_def)




lemma colon_pad2: "n < 100 \<Longrightarrow> CHR '':'' \<notin> set (pad2 n)"
  using pad2_digits [of n] is_digit_not by (auto simp: list_all_iff)









text \<open>
  Claim C2. The claim: an observation whose stop is not in its trip's block is dropped,
  never enriched from another trip's block, and the lookup never raises. The code: the
  second loop runs to the end of the schedule file. The observation below is for route
  61A, start 06:35, stop 3000; no row of that trip has stop 3000, a row of the 71C trip
  after it has, and the observation is kept with that row's time 09:00. With a schedule
  file of the title row alone the lookup raises UnboundLocalError.
\<close>

theorem matcher_scans_past_block:
  "log_scheduled_arrival_times example_schedule
     [first_line,
      ''9001,2023-12-11T06:30,'Stop E',3000,61A,OUTBOUND,2023-12-11,06:35,09:02'' @ newline]
   = (Inr (),
     [first_line,
      ''9001,2023-12-11T06:30,'Stop E',3000,61A,OUTBOUND,2023-12-11,06:35,09:02,09:00'' @ newline])
   \<and> log_scheduled_arrival_times (take 1 example_schedule)
     [first_line,
      ''9001,2023-12-11T06:30,'Stop E',3000,61A,OUTBOUND,2023-12-11,06:35,09:02'' @ newline]
   = (Inl UnboundLocalError,
     [first_line,
      ''9001,2023-12-11T06:30,'Stop E',3000,61A,OUTBOUND,2023-12-11,06:35,09:02'' @ newline])"
  by code_simp

text \<open>
  Stripping a line does not change the number of its comma-separated fields.
\<close>

lemma length_split_acc:
  "length (split_acc sep acc s) = Suc (length (filter (\<lambda>c. c = sep) s))"
  by (induction s arbitrary: acc) auto

lemma filter_dropWhile_other:
  "\<forall>x. P x \<longrightarrow> \<not> Q x \<Longrightarrow> filter P (dropWhile Q xs) = filter P xs"
  by (induction xs) auto

lemma length_split_strip:
  assumes "\<not> is_space sep"
  shows "length (split sep (strip l)) = length (split sep l)"
proof -
  have q: "\<forall>x. x = sep \<longrightarrow> \<not> is_space x" using assms by simp
  have "length (filter (\<lambda>c. c = sep) (strip l)) =
      length (filter (\<lambda>c. c = sep) (dropWhile is_space (rev (dropWhile is_space l))))"
    by (simp add: strip_def rev_filter [symmetric])
  also have "\<dots> = length (filter (\<lambda>c. c = sep) (rev (dropWhile is_space l)))"
    by (simp add: filter_dropWhile_other [OF q])
  also have "\<dots> = length (filter (\<lambda>c. c = sep) l)"
    by (simp add: rev_filter [symmetric] filter_dropWhile_other [OF q])
  finally show ?thesis by (simp add: split_def length_split_acc)
qed

lemma comma_not_space: "\<not> is_space CHR '',''"
  by (simp add: is_space_def)

lemma row_matches_fields:
  "5 \<le> length stop \<Longrightarrow>
   row_matches stop route_id direction sst =
     Inr (stop ! 1 = route_id \<and> stop ! 3 = schedule_style_direction direction \<and>
          startswith (stop ! 4) sst)"
  by (simp add: row_matches_def get_def)

lemma spec_trip_row_matches:
  "spec_trip_row line route_id direction sst \<longleftrightarrow>
   5 \<le> length (split CHR '','' (strip line)) \<and>
   row_matches (split CHR '','' (strip line)) route_id direction sst = Inr True"
  using row_matches_fields [of "split CHR '','' (strip line)" route_id direction sst]
  by (auto simp: spec_trip_row_def Let_def schedule_style_direction_def)

text \<open>
  The first loop stops at the first row that starts a block of the wanted trip, when the
  rows before it have at least five fields.
\<close>

lemma first_loop_to_block:
  assumes "spec_block_start lines route_id direction sst i"
    and "\<forall>k. 1 \<le> k \<and> k < i \<longrightarrow>
           5 \<le> length (split CHR '','' (strip (lines ! k))) \<and>
           \<not> spec_block_start lines route_id direction sst k"
    and "1 \<le> i0" and "i0 \<le> i"
  shows "first_loop lines route_id direction sst i0 = Inr i"
  using assms(3,4)
proof (induction "i - i0" arbitrary: i0)
  case 0
  then have eq: "i0 = i" by simp
  from assms(1) have i: "i < length lines"
    and m: "row_matches (split CHR '','' (strip (lines ! i))) route_id direction sst = Inr True"
    and p: "i = 1 \<or> (2 \<le> length (split CHR '','' (lines ! (i - 1))) \<and>
                     split CHR '','' (lines ! (i - 1)) ! 1 \<noteq> route_id)"
    by (simp_all add: spec_block_start_def spec_trip_row_matches Let_def)
  show ?case
    unfolding eq using i m p
    by (subst first_loop.simps) (auto simp: get_def)
next
  case (Suc n)
  then have lt: "i0 < i" by simp
  from assms(1) have i: "i < length lines" by (simp add: spec_block_start_def)
  from assms(2) Suc.prems lt
  have wf: "5 \<le> length (split CHR '','' (strip (lines ! i0)))"
    and nb: "\<not> spec_block_start lines route_id direction sst i0"
    by simp_all
  have rec: "first_loop lines route_id direction sst (Suc i0) = Inr i"
    using Suc.hyps(2) lt Suc.prems by (intro Suc.hyps(1)) simp_all
  show ?case
  proof (cases "row_matches (split CHR '','' (strip (lines ! i0))) route_id direction sst = Inr True")
    case False
    with row_matches_fields [OF wf, of route_id direction sst]
    have "row_matches (split CHR '','' (strip (lines ! i0))) route_id direction sst = Inr False"
      by simp
    with lt i rec show ?thesis by (subst first_loop.simps) simp
  next
    case True
    with wf have "spec_trip_row (lines ! i0) route_id direction sst"
      by (simp add: spec_trip_row_matches)
    with nb Suc.prems lt i have ne: "i0 \<noteq> 1"
      and pr: "\<not> (2 \<le> length (split CHR '','' (lines ! (i0 - 1))) \<and>
                 split CHR '','' (lines ! (i0 - 1)) ! 1 \<noteq> route_id)"
      by (auto simp: spec_block_start_def Let_def)
    from ne Suc.prems lt have "1 \<le> i0 - 1 \<and> i0 - 1 < i" by arith
    with assms(2) have "5 \<le> length (split CHR '','' (strip (lines ! (i0 - 1))))" by blast
    then have "5 \<le> length (split CHR '','' (lines ! (i0 - 1)))"
      by (simp add: length_split_strip [OF comma_not_space])
    with pr have "get (split CHR '','' (lines ! (i0 - 1))) 1 = Inr route_id"
      by (simp add: get_def)
    with True ne lt i rec show ?thesis by (subst first_loop.simps) simp
  qed
qed




lemma get_Inl: "get xs n = Inl e \<Longrightarrow> e = IndexError \<and> length xs \<le> n"
  by (auto simp: get_def split: if_splits)

lemma second_loop_short:
  assumes "j0 \<le> j" "j < length lines"
    and "\<forall>k. j0 \<le> k \<and> k < j \<longrightarrow>
        (\<exists>s. get (split CHR '','' (strip (lines ! k))) 6 = Inr s \<and> s \<noteq> stop_id)"
    and "length (split CHR '','' (strip (lines ! j))) < 7"
  shows "second_loop lines stop_id j0 = Inl IndexError"
proof -
  have "second_loop lines stop_id j0 = second_loop lines stop_id j"
    using assms(1-3) by (intro second_loop_skip) auto
  also have "\<dots> = Inl IndexError"
    using assms(2,4) by (subst second_loop.simps) (simp add: Let_def get_def)
  finally show ?thesis .
qed

text \<open>
  The second loop from row \<open>j0\<close> on: either no row has the stop_id and nothing is
  returned, or the first row with the stop_id decides (its arrival_time is formatted, or
  the formatting raises), or a row with fewer than seven fields comes first and the
  subscript raises IndexError.
\<close>

lemma second_loop_cases:
  "(\<forall>j. j0 \<le> j \<and> j < length lines \<longrightarrow>
       (\<exists>s. get (split CHR '','' (strip (lines ! j))) 6 = Inr s \<and> s \<noteq> stop_id)) \<and>
     second_loop lines stop_id j0 = Inr None
   \<or> (\<exists>j a. j0 \<le> j \<and> j < length lines \<and>
         get (split CHR '','' (strip (lines ! j))) 6 = Inr stop_id \<and>
         get (split CHR '','' (strip (lines ! j))) 4 = Inr a \<and>
         (\<forall>k. j0 \<le> k \<and> k < j \<longrightarrow>
            (\<exists>s. get (split CHR '','' (strip (lines ! k))) 6 = Inr s \<and> s \<noteq> stop_id)) \<and>
         second_loop lines stop_id j0 =
           (case arrival_HM a of Inl e \<Rightarrow> Inl e | Inr hm \<Rightarrow> Inr (Some hm)))
   \<or> (\<exists>j. j0 \<le> j \<and> j < length lines \<and>
         length (split CHR '','' (strip (lines ! j))) < 7 \<and>
         (\<forall>k. j0 \<le> k \<and> k < j \<longrightarrow>
            (\<exists>s. get (split CHR '','' (strip (lines ! k))) 6 = Inr s \<and> s \<noteq> stop_id)) \<and>
         second_loop lines stop_id j0 = Inl IndexError)"
proof -
  let ?other = "\<lambda>k. \<exists>s. get (split CHR '','' (strip (lines ! k))) 6 = Inr s \<and> s \<noteq> stop_id"
  show ?thesis
  proof (cases "\<forall>j. j0 \<le> j \<and> j < length lines \<longrightarrow> ?other j")
    case True
    with second_loop_none [OF True] show ?thesis by blast
  next
    case False
    then have ex: "\<exists>j. j0 \<le> j \<and> j < length lines \<and> \<not> ?other j" by blast
    define j where "j = (LEAST j. j0 \<le> j \<and> j < length lines \<and> \<not> ?other j)"
    from LeastI_ex [OF ex] have j: "j0 \<le> j" "j < length lines" "\<not> ?other j"
      unfolding j_def by blast+
    have before: "\<forall>k. j0 \<le> k \<and> k < j \<longrightarrow> ?other k"
    proof (intro allI impI)
      fix k assume k: "j0 \<le> k \<and> k < j"
      show "?other k"
      proof (rule ccontr)
        assume "\<not> ?other k"
        with k j(2) have "j0 \<le> k \<and> k < length lines \<and> \<not> ?other k" by simp
        then have "j \<le> k" unfolding j_def by (rule Least_le)
        with k show False by simp
      qed
    qed
    show ?thesis
    proof (cases "get (split CHR '','' (strip (lines ! j))) 6")
      case (Inl e)
      then have "length (split CHR '','' (strip (lines ! j))) < 7"
        using get_Inl [OF Inl] by simp
      from second_loop_short [OF j(1,2) before this] j before this show ?thesis by blast
    next
      case (Inr s)
      with j(3) have s: "get (split CHR '','' (strip (lines ! j))) 6 = Inr stop_id" by simp
      then have "6 < length (split CHR '','' (strip (lines ! j)))"
        by (auto simp: get_def split: if_splits)
      then obtain a where a: "get (split CHR '','' (strip (lines ! j))) 4 = Inr a"
        by (simp add: get_def)
      from second_loop_hit [OF j(1,2) before s a] j s a before show ?thesis by blast
    qed
  qed
qed

lemma scan_after_first_loop:
  assumes "1 < length lines"
    and "first_loop lines route_id direction scheduled_start_time 1 = Inr i"
  shows "1 \<le> i \<and> i < length lines \<and>
    ((\<forall>j. i < j \<and> j < length lines \<longrightarrow>
        (\<exists>s. get (split CHR '','' (strip (lines ! j))) 6 = Inr s \<and> s \<noteq> stop_id)) \<and>
      find_scheduled_arrival_time lines stop_id route_id direction scheduled_start_time =
        Inr None
     \<or> (\<exists>j a. i < j \<and> j < length lines \<and>
          get (split CHR '','' (strip (lines ! j))) 6 = Inr stop_id \<and>
          get (split CHR '','' (strip (lines ! j))) 4 = Inr a \<and>
          (\<forall>k. i < k \<and> k < j \<longrightarrow>
             (\<exists>s. get (split CHR '','' (strip (lines ! k))) 6 = Inr s \<and> s \<noteq> stop_id)) \<and>
          find_scheduled_arrival_time lines stop_id route_id direction scheduled_start_time =
            (case arrival_HM a of Inl e \<Rightarrow> Inl e | Inr hm \<Rightarrow> Inr (Some hm)))
     \<or> (\<exists>j. i < j \<and> j < length lines \<and>
          length (split CHR '','' (strip (lines ! j))) < 7 \<and>
          (\<forall>k. i < k \<and> k < j \<longrightarrow>
             (\<exists>s. get (split CHR '','' (strip (lines ! k))) 6 = Inr s \<and> s \<noteq> stop_id)) \<and>
          find_scheduled_arrival_time lines stop_id route_id direction scheduled_start_time =
            Inl IndexError))"
proof -
  from first_loop_range [OF assms] have i: "1 \<le> i" "i < length lines" by simp_all
  have run: "find_scheduled_arrival_time lines stop_id route_id direction scheduled_start_time =
      second_loop lines stop_id (Suc i)"
    using assms by (simp add: find_scheduled_arrival_time_def)
  from second_loop_cases [of "Suc i" lines stop_id] i show ?thesis
    unfolding run Suc_le_eq by simp
qed

text \<open>
  Claim C9, as stated, fails: the observation is not always matched or dropped. In the
  schedule below the block starts at row 1 with stop 1000; row 3 has stop 1000 again and
  no arrival_time. The scan starts at row 2, stops at row 3, and the lookup raises
  ValueError: the Schedule Matcher ends with that error and the log is not rewritten.
\<close>

theorem later_row_blank_time_counterexample:
  "spec_block_start example_schedule_blank_time ''61A'' ''OUTBOUND'' ''06:35'' 1
   \<and> first_loop example_schedule_blank_time ''61A'' ''OUTBOUND'' ''06:35'' 1 = Inr 1
   \<and> get (split CHR '','' (strip (example_schedule_blank_time ! 1))) 6 = Inr ''1000''
   \<and> get (split CHR '','' (strip (example_schedule_blank_time ! 3))) 6 = Inr ''1000''
   \<and> get (split CHR '','' (strip (example_schedule_blank_time ! 3))) 4 = Inr ''''
   \<and> find_scheduled_arrival_time example_schedule_blank_time ''1000'' ''61A'' ''OUTBOUND''
       ''06:35'' = Inl ValueError
   \<and> log_scheduled_arrival_times example_schedule_blank_time
       [first_line,
        ''9001,2023-12-11T06:30,'Stop A',1000,61A,OUTBOUND,2023-12-11,06:35,06:36'' @ newline]
     = (Inl ValueError,
       [first_line,
        ''9001,2023-12-11T06:30,'Stop A',1000,61A,OUTBOUND,2023-12-11,06:35,06:36'' @ newline])"
  by code_simp

text \<open>
  Claim C9, amended. Let row \<open>i\<close> be the first row that starts a block of the
  observation's trip, the rows before it having at least five fields. The scan reads
  only rows after \<open>i\<close>, and one of three things happens: no row after \<open>i\<close> has the
  stop_id and nothing is returned (the observation is dropped); or the first row after
  \<open>i\<close> with the stop_id decides, the lookup returning its formatted arrival_time or
  raising when it does not format; or a row after \<open>i\<close> with fewer than seven fields
  comes first and the lookup raises IndexError. Row \<open>i\<close> itself is never the source. In
  the witness the block starts at row 3 with stop 1000: the time 07:35 comes from row 6,
  and without row 6 nothing is returned.
\<close>

theorem scan_after_block_start:
  assumes "spec_block_start lines route_id direction scheduled_start_time i"
    and "\<forall>k. 1 \<le> k \<and> k < i \<longrightarrow>
           5 \<le> length (split CHR '','' (strip (lines ! k))) \<and>
           \<not> spec_block_start lines route_id direction scheduled_start_time k"
  shows
    "(\<forall>j. i < j \<and> j < length lines \<longrightarrow>
        (\<exists>s. get (split CHR '','' (strip (lines ! j))) 6 = Inr s \<and> s \<noteq> stop_id)) \<and>
      find_scheduled_arrival_time lines stop_id route_id direction scheduled_start_time =
        Inr None
     \<or> (\<exists>j a. i < j \<and> j < length lines \<and>
          get (split CHR '','' (strip (lines ! j))) 6 = Inr stop_id \<and>
          get (split CHR '','' (strip (lines ! j))) 4 = Inr a \<and>
          (\<forall>k. i < k \<and> k < j \<longrightarrow>
             (\<exists>s. get (split CHR '','' (strip (lines ! k))) 6 = Inr s \<and> s \<noteq> stop_id)) \<and>
          find_scheduled_arrival_time lines stop_id route_id direction scheduled_start_time =
            (case arrival_HM a of Inl e \<Rightarrow> Inl e | Inr hm \<Rightarrow> Inr (Some hm)))
     \<or> (\<exists>j. i < j \<and> j < length lines \<and>
          length (split CHR '','' (strip (lines ! j))) < 7 \<and>
          (\<forall>k. i < k \<and> k < j \<longrightarrow>
             (\<exists>s. get (split CHR '','' (strip (lines ! k))) 6 = Inr s \<and> s \<noteq> stop_id)) \<and>
          find_scheduled_arrival_time lines stop_id route_id direction scheduled_start_time =
            Inl IndexError)"
proof -
  have fl: "first_loop lines route_id direction scheduled_start_time 1 = Inr i"
    using assms by (intro first_loop_to_block) (simp_all add: spec_block_start_def)
  from assms(1) have "1 < length lines" by (simp add: spec_block_start_def)
  from scan_after_first_loop [OF this fl, of stop_id] show ?thesis by simp
qed

theorem scan_after_block_start_witness:
  "spec_block_start example_schedule_later_block ''61A'' ''OUTBOUND'' ''06:35'' 3
   \<and> \<not> spec_block_start example_schedule_later_block ''61A'' ''OUTBOUND'' ''06:35'' 1
   \<and> \<not> spec_block_start example_schedule_later_block ''61A'' ''OUTBOUND'' ''06:35'' 2
   \<and> get (split CHR '','' (strip (example_schedule_later_block ! 3))) 6 = Inr ''1000''
   \<and> get (split CHR '','' (strip (example_schedule_later_block ! 3))) 4 = Inr ''06:35:00''
   \<and> find_scheduled_arrival_time example_schedule_later_block ''1000'' ''61A'' ''OUTBOUND''
        ''06:35'' = Inr (Some ''07:35'')
   \<and> (\<exists>j a. 3 < j \<and> j < length example_schedule_later_block \<and>
         get (split CHR '','' (strip (example_schedule_later_block ! j))) 6 = Inr ''1000'' \<and>
         get (split CHR '','' (strip (example_schedule_later_block ! j))) 4 = Inr a \<and>
         arrival_HM a = Inr ''07:35'')
   \<and> find_scheduled_arrival_time (take 6 example_schedule_later_block) ''1000'' ''61A''
        ''OUTBOUND'' ''06:35'' = Inr None"
proof -
  have b3: "spec_block_start example_schedule_later_block ''61A'' ''OUTBOUND'' ''06:35'' 3"
    by code_simp
  have n1: "\<not> spec_block_start example_schedule_later_block ''61A'' ''OUTBOUND'' ''06:35'' 1"
    by code_simp
  have n2: "\<not> spec_block_start example_schedule_later_block ''61A'' ''OUTBOUND'' ''06:35'' 2"
    by code_simp
  have w1: "5 \<le> length (split CHR '','' (strip (example_schedule_later_block ! 1)))"
    by code_simp
  have w2: "5 \<le> length (split CHR '','' (strip (example_schedule_later_block ! 2)))"
    by code_simp
  have early: "\<forall>k. 1 \<le> k \<and> k < 3 \<longrightarrow>
      5 \<le> length (split CHR '','' (strip (example_schedule_later_block ! k))) \<and>
      \<not> spec_block_start example_schedule_later_block ''61A'' ''OUTBOUND'' ''06:35'' k"
  proof (intro allI impI)
    fix k :: nat assume "1 \<le> k \<and> k < 3"
    then have "k = 1 \<or> k = 2" by arith
    with n1 n2 w1 w2
    show "5 \<le> length (split CHR '','' (strip (example_schedule_later_block ! k))) \<and>
      \<not> spec_block_start example_schedule_later_block ''61A'' ''OUTBOUND'' ''06:35'' k"
      by blast
  qed
  have c: "get (split CHR '','' (strip (example_schedule_later_block ! 3))) 6 = Inr ''1000''"
    by code_simp
  have c4: "get (split CHR '','' (strip (example_schedule_later_block ! 3))) 4 = Inr ''06:35:00''"
    by code_simp
  have b: "find_scheduled_arrival_time example_schedule_later_block ''1000'' ''61A'' ''OUTBOUND''
        ''06:35'' = Inr (Some ''07:35'')"
    by code_simp
  have d: "find_scheduled_arrival_time (take 6 example_schedule_later_block) ''1000'' ''61A''
        ''OUTBOUND'' ''06:35'' = Inr None"
    by code_simp
  from scan_after_block_start [OF b3 early, of "''1000''"]
  consider (none) "(Inr (Some ''07:35'') :: py_error + string option) = Inr None"
    | (hit) j t where "3 < j" "j < length example_schedule_later_block"
        "get (split CHR '','' (strip (example_schedule_later_block ! j))) 6 = Inr ''1000''"
        "get (split CHR '','' (strip (example_schedule_later_block ! j))) 4 = Inr t"
        "Inr (Some ''07:35'') = (case arrival_HM t of Inl e \<Rightarrow> Inl e | Inr hm \<Rightarrow> Inr (Some hm))"
    | (short) "(Inr (Some ''07:35'') :: py_error + string option) = Inl IndexError"
    unfolding b by blast
  then have e: "\<exists>j a. 3 < j \<and> j < length example_schedule_later_block \<and>
         get (split CHR '','' (strip (example_schedule_later_block ! j))) 6 = Inr ''1000'' \<and>
         get (split CHR '','' (strip (example_schedule_later_block ! j))) 4 = Inr a \<and>
         arrival_HM a = Inr ''07:35''"
  proof cases
    case none
    then show ?thesis by simp
  next
    case hit
    from hit(5) have "arrival_HM t = Inr ''07:35''"
      by (cases "arrival_HM t") simp_all
    with hit(1-4) show ?thesis by blast
  next
    case short
    then show ?thesis by simp
  qed
  show ?thesis
    by (rule conjI [OF b3 conjI [OF n1 conjI [OF n2 conjI [OF c conjI [OF c4 conjI [OF b
          conjI [OF e d]]]]]]])
qed

lemma matcher_row_ten:
  "length (split CHR '','' (strip l)) = 10 \<Longrightarrow>
   matcher_row schedule l = Inr (Some (strip l @ newline))"
  by (simp add: matcher_row_def)

lemma matcher_row_other:
  "length (split CHR '','' (strip l)) \<noteq> 10 \<Longrightarrow> matcher_row schedule l = Inr (Some new_line) \<Longrightarrow>
   \<exists>t. new_line = strip l @ '','' @ t @ newline"
  by (auto simp: matcher_row_def Let_def split: sum.splits option.splits)

lemma matcher_loop_out:
  "matcher_loop schedule ls new_lines = Inr out \<Longrightarrow>
   out = new_lines @
     map (\<lambda>l. case matcher_row schedule l of Inr (Some new_line) \<Rightarrow> new_line | _ \<Rightarrow> [])
       (filter (\<lambda>l. \<exists>new_line. matcher_row schedule l = Inr (Some new_line)) ls)"
proof (induction ls arbitrary: new_lines)
  case Nil
  then show ?case by simp
next
  case (Cons l ls)
  show ?case
  proof (cases "matcher_row schedule l")
    case (Inl e)
    with Cons.prems show ?thesis by simp
  next
    case (Inr r)
    show ?thesis
    proof (cases r)
      case None
      with Inr Cons.prems Cons.IH [of new_lines] show ?thesis by simp
    next
      case (Some new_line)
      with Inr Cons.prems Cons.IH [of "new_lines @ [new_line]"] show ?thesis by simp
    qed
  qed
qed

text \<open>
  Claim C7, amended. When the pass completes, the first line of the output is the first
  line of the input; the other output lines come, in order, from the input lines that are
  retained; every line with 10 fields is retained; and the output line of a 10-field line
  is the line without its surrounding whitespace, followed by one newline (the line
  itself, when it has that form). Any other retained line gets a comma and a time.
\<close>

theorem matcher_frame:
  assumes "log_scheduled_arrival_times schedule history = (Inr (), out)"
  shows "\<exists>header rows P.
           history = header # rows \<and> hd out = header \<and>
           (\<forall>l. length (split CHR '','' (strip l)) = 10 \<longrightarrow> P l) \<and>
           list_all2
             (\<lambda>new_line l.
                if length (split CHR '','' (strip l)) = 10 then new_line = strip l @ newline
                else \<exists>t. new_line = strip l @ '','' @ t @ newline)
             (tl out) (filter P rows)"
proof -
  from assms obtain header rows where h: "history = header # rows"
    by (cases history) (auto simp: log_scheduled_arrival_times_def get_def)
  let ?P = "\<lambda>l. \<exists>new_line. matcher_row schedule l = Inr (Some new_line)"
  let ?f = "\<lambda>l. case matcher_row schedule l of Inr (Some new_line) \<Rightarrow> new_line | _ \<Rightarrow> []"
  from assms h have "matcher_loop schedule rows [header] = Inr out"
    by (auto simp: log_scheduled_arrival_times_def get_def split: sum.splits)
  from matcher_loop_out [OF this] have out: "out = header # map ?f (filter ?P rows)"
    by simp
  have ten: "\<forall>l. length (split CHR '','' (strip l)) = 10 \<longrightarrow> ?P l"
    by (simp add: matcher_row_ten)
  have "list_all2
          (\<lambda>new_line l.
             if length (split CHR '','' (strip l)) = 10 then new_line = strip l @ newline
             else \<exists>t. new_line = strip l @ '','' @ t @ newline)
          (map ?f (filter ?P rows)) (filter ?P rows)"
    unfolding list_all2_map1
  proof (rule list_all2_same [THEN iffD2], intro ballI)
    fix l assume "l \<in> set (filter ?P rows)"
    then obtain new_line where nl: "matcher_row schedule l = Inr (Some new_line)" by auto
    show "if length (split CHR '','' (strip l)) = 10 then ?f l = strip l @ newline
          else \<exists>t. ?f l = strip l @ '','' @ t @ newline"
    proof (cases "length (split CHR '','' (strip l)) = 10")
      case True
      then show ?thesis by (simp add: matcher_row_ten)
    next
      case False
      from matcher_row_other [OF False nl] nl False show ?thesis by simp
    qed
  qed
  with out h ten show ?thesis by (intro exI [of _ header] exI [of _ rows] exI [of _ ?P]) simp
qed


theorem matcher_frame_witness:
  "log_scheduled_arrival_times example_schedule
       [first_line,
        ''9001,2023-12-11T06:40,'Stop B',1177,61A,OUTBOUND,2023-12-11,06:35,06:44,06:42'' @ newline,
        ''9002,2023-12-11T06:40,'Stop Z',9999,61A,OUTBOUND,2023-12-11,06:35,06:50'' @ newline,
        ''9003,2023-12-12T01:05,'Stop C',1200,61A,OUTBOUND,2023-12-11,06:35,01:12'' @ newline]
   = (Inr (),
       [first_line,
        ''9001,2023-12-11T06:40,'Stop B',1177,61A,OUTBOUND,2023-12-11,06:35,06:44,06:42'' @ newline,
        ''9003,2023-12-12T01:05,'Stop C',1200,61A,OUTBOUND,2023-12-11,06:35,01:12,01:10'' @ newline])
   \<and> (\<exists>header rows P.
        [first_line,
         ''9001,2023-12-11T06:40,'Stop B',1177,61A,OUTBOUND,2023-12-11,06:35,06:44,06:42'' @ newline,
         ''9002,2023-12-11T06:40,'Stop Z',9999,61A,OUTBOUND,2023-12-11,06:35,06:50'' @ newline,
         ''9003,2023-12-12T01:05,'Stop C',1200,61A,OUTBOUND,2023-12-11,06:35,01:12'' @ newline]
        = header # rows \<and>
        P (''9001,2023-12-11T06:40,'Stop B',1177,61A,OUTBOUND,2023-12-11,06:35,06:44,06:42'' @ newline) \<and>
        list_all2
          (\<lambda>new_line l.
             if length (split CHR '','' (strip l)) = 10 then new_line = strip l @ newline
             else \<exists>t. new_line = strip l @ '','' @ t @ newline)
          [''9001,2023-12-11T06:40,'Stop B',1177,61A,OUTBOUND,2023-12-11,06:35,06:44,06:42'' @ newline,
           ''9003,2023-12-12T01:05,'Stop C',1200,61A,OUTBOUND,2023-12-11,06:35,01:12,01:10'' @ newline]
          (filter P rows))"
proof -
  let ?h = "[first_line,
        ''9001,2023-12-11T06:40,'Stop B',1177,61A,OUTBOUND,2023-12-11,06:35,06:44,06:42'' @ newline,
        ''9002,2023-12-11T06:40,'Stop Z',9999,61A,OUTBOUND,2023-12-11,06:35,06:50'' @ newline,
        ''9003,2023-12-12T01:05,'Stop C',1200,61A,OUTBOUND,2023-12-11,06:35,01:12'' @ newline]"
  let ?out = "[first_line,
        ''9001,2023-12-11T06:40,'Stop B',1177,61A,OUTBOUND,2023-12-11,06:35,06:44,06:42'' @ newline,
        ''9003,2023-12-12T01:05,'Stop C',1200,61A,OUTBOUND,2023-12-11,06:35,01:12,01:10'' @ newline]"
  have run: "log_scheduled_arrival_times example_schedule ?h = (Inr (), ?out)"
    by code_simp
  have ten: "length (split CHR '','' (strip
      (''9001,2023-12-11T06:40,'Stop B',1177,61A,OUTBOUND,2023-12-11,06:35,06:44,06:42'' @ newline))) = 10"
    by code_simp
  from matcher_frame [OF run] obtain header rows P where
    f: "?h = header # rows" "\<forall>l. length (split CHR '','' (strip l)) = 10 \<longrightarrow> P l"
      "list_all2
          (\<lambda>new_line l.
             if length (split CHR '','' (strip l)) = 10 then new_line = strip l @ newline
             else \<exists>t. new_line = strip l @ '','' @ t @ newline)
          (tl ?out) (filter P rows)"
    by blast
  from f(2) ten have
    "P (''9001,2023-12-11T06:40,'Stop B',1177,61A,OUTBOUND,2023-12-11,06:35,06:44,06:42'' @ newline)"
    by blast
  with run f(1,3) show ?thesis by (intro conjI exI [of _ header] exI [of _ rows] exI [of _ P]) simp_all
qed

text \<open>
  Claim C7, as stated, fails for a 10-field line that ends in a blank: the line written is
  not the line read.
\<close>

theorem matcher_strips_ten_field_row_counterexample:
  "length (split CHR '','' (strip
      (''9001,2023-12-11T06:40,'Stop B',1177,61A,OUTBOUND,2023-12-11,06:35,06:44,06:42 '' @ newline))) = 10
   \<and> log_scheduled_arrival_times example_schedule
       [first_line,
        ''9001,2023-12-11T06:40,'Stop B',1177,61A,OUTBOUND,2023-12-11,06:35,06:44,06:42 '' @ newline]
   = (Inr (),
       [first_line,
        ''9001,2023-12-11T06:40,'Stop B',1177,61A,OUTBOUND,2023-12-11,06:35,06:44,06:42'' @ newline])
   \<and> ''9001,2023-12-11T06:40,'Stop B',1177,61A,OUTBOUND,2023-12-11,06:35,06:44,06:42 '' @ newline
     \<noteq> ''9001,2023-12-11T06:40,'Stop B',1177,61A,OUTBOUND,2023-12-11,06:35,06:44,06:42'' @ newline"
  by code_simp

section \<open>What the scheduled-time conversion computes\<close>

lemma digit_char_inj: "a < 10 \<Longrightarrow> b < 10 \<Longrightarrow> digit_char a = digit_char b \<longleftrightarrow> a = b"
proof
  assume a: "a < 10" and b: "b < 10" and eq: "digit_char a = digit_char b"
  then have "(of_char (digit_char a) :: nat) = of_char (digit_char b)" by simp
  with a b show "a = b" by (simp add: of_char_digit_char)
qed simp

lemma digit_char_0: "digit_char 0 = CHR ''0''"
  by (simp add: digit_char_def char_of_eq_iff)

lemma digit_char_simps:
  "digit_char 0 = CHR ''0''" "digit_char 1 = CHR ''1''" "digit_char 2 = CHR ''2''"
  "digit_char 3 = CHR ''3''" "digit_char 4 = CHR ''4''" "digit_char 5 = CHR ''5''"
  "digit_char 6 = CHR ''6''" "digit_char 7 = CHR ''7''" "digit_char 8 = CHR ''8''"
  "digit_char 9 = CHR ''9''" "digit_char (Suc 0) = CHR ''1''"
  by (simp_all add: digit_char_def char_of_eq_iff)

lemma pad2_zero_iff: "h < 100 \<Longrightarrow> pad2 h = ''00'' \<longleftrightarrow> h = 0"
proof -
  assume h: "h < 100"
  then have "h div 10 < 10" "h mod 10 < 10" by simp_all
  then have "pad2 h = ''00'' \<longleftrightarrow> h div 10 = 0 \<and> h mod 10 = 0"
    using digit_char_inj [of "h div 10" 0] digit_char_inj [of "h mod 10" 0]
    by (simp add: pad2_def digit_char_0 [symmetric])
  also have "\<dots> \<longleftrightarrow> h = 0" by auto
  finally show ?thesis .
qed

lemma pad4_digits: "n < 10000 \<Longrightarrow> list_all is_digit (pad4 n)"
proof -
  assume "n < 10000"
  then have "n div 100 < 100" "n mod 100 < 100" by simp_all
  then show ?thesis by (simp add: pad4_def pad2_digits)
qed

lemma digits_val_append_pad2:
  "b < 100 \<Longrightarrow> digits_val (xs @ pad2 b) = 100 * digits_val xs + b"
proof -
  assume "b < 100"
  then have "b div 10 < 10" "b mod 10 < 10" by simp_all
  then show ?thesis
    by (simp add: digits_val_def pad2_def digit_val_digit_char)
qed

lemma digits_val_pad4: "n < 10000 \<Longrightarrow> digits_val (pad4 n) = n"
proof -
  assume "n < 10000"
  then have "n div 100 < 100" "n mod 100 < 100" by simp_all
  then show ?thesis
    by (simp add: pad4_def digits_val_append_pad2 digits_val_pad2)
qed

lemma digits_no_sep:
  "list_all is_digit s \<Longrightarrow>
   CHR '' '' \<notin> set s \<and> CHR ''-'' \<notin> set s \<and> CHR '':'' \<notin> set s"
  using is_digit_not by (auto simp: list_all_iff)

lemma startswith_hm: "h < 100 \<Longrightarrow> startswith (pad2 h @ '':'' @ pad2 m) ''00:'' \<longleftrightarrow> h = 0"
  using pad2_zero_iff [of h] by (simp add: startswith_def pad2_def)

lemma next_day_after: "date_before d (next_day d)"
  by (simp add: date_before_def next_day_def)

lemma date_before_trans: "date_before a b \<Longrightarrow> date_before b c \<Longrightarrow> date_before a c"
  by (auto simp: date_before_def)

lemma date_before_irrefl: "\<not> date_before d d"
  by (simp add: date_before_def)

lemma add_days_after: "add_days d n = Inr d' \<Longrightarrow> 0 < n \<Longrightarrow> date_before d d'"
proof (induction n arbitrary: d)
  case 0
  then show ?case by simp
next
  case (Suc n)
  from Suc.prems(1) have rec: "add_days (next_day d) n = Inr d'"
    by (simp split: if_splits)
  show ?case
  proof (cases "n = 0")
    case True
    with rec next_day_after [of d] show ?thesis by auto
  next
    case False
    with Suc.IH [OF rec] have "date_before (next_day d) d'" by simp
    with next_day_after [of d] show ?thesis by (rule date_before_trans)
  qed
qed

lemma add_days_same_iff: "add_days d n = Inr d' \<Longrightarrow> d' = d \<longleftrightarrow> n = 0"
  using add_days_after [of d n d'] date_before_irrefl [of d] by (cases n) auto

lemma days_in_month_bounds: "28 \<le> days_in_month y m \<and> days_in_month y m \<le> 31"
  by (simp add: days_in_month_def)

lemma next_day_valid:
  assumes "valid_date d" "d \<noteq> Date 9999 12 31"
  shows "valid_date (next_day d)"
proof (cases "day d < days_in_month (year d) (month d)")
  case True
  with assms(1) show ?thesis by (simp add: valid_date_def next_day_def)
next
  case False
  note last_day = this
  show ?thesis
  proof (cases "month d < 12")
    case True
    with last_day assms(1) days_in_month_bounds [of "year d" "month d + 1"] show ?thesis
      by (simp add: valid_date_def next_day_def)
  next
    case False
    with assms(1) have m: "month d = 12" by (simp add: valid_date_def)
    with last_day assms(1) have dd: "day d = 31"
      by (simp add: valid_date_def days_in_month_def)
    from m dd assms(2) have "year d \<noteq> 9999" by (cases d) auto
    with assms(1) m dd show ?thesis
      by (simp add: valid_date_def next_day_def days_in_month_def)
  qed
qed

lemma add_days_valid: "valid_date d \<Longrightarrow> add_days d n = Inr d' \<Longrightarrow> valid_date d'"
proof (induction n arbitrary: d)
  case 0
  then show ?case by simp
next
  case (Suc n)
  from Suc.prems(2) have ne: "d \<noteq> Date 9999 12 31" and rec: "add_days (next_day d) n = Inr d'"
    by (auto split: if_splits)
  from Suc.IH [OF next_day_valid [OF Suc.prems(1) ne] rec] show ?case .
qed

lemma strptime_Ymd_valid: "strptime_Ymd s = Inr d \<Longrightarrow> valid_date d"
  by (auto simp: strptime_Ymd_def split: list.splits option.splits if_splits)

lemma datetime_add_seconds_nat:
  "datetime_add_seconds d (int s) =
     (case add_days d (s div 86400) of
        Inl e \<Rightarrow> Inl e
      | Inr d' \<Rightarrow> Inr (d', s mod 86400 div 3600, s mod 86400 mod 3600 div 60))"
proof -
  have a: "int s div 86400 = int (s div 86400)" by (simp add: zdiv_int)
  have b: "nat (int s mod 86400) = s mod 86400" by (simp add: zmod_int nat_mod_distrib)
  show ?thesis by (simp add: datetime_add_seconds_def Let_def a b)
qed

lemma strftime_Ymd_chars:
  assumes "valid_date d"
  shows "CHR '' '' \<notin> set (strftime_Ymd d)"
proof -
  from assms have y: "year d < 10000" and m: "month d < 100" and dd: "day d < 100"
    using days_in_month_bounds [of "year d" "month d"] by (simp_all add: valid_date_def)
  from digits_no_sep [OF pad4_digits [OF y]] digits_no_sep [OF pad2_digits [OF m]]
    digits_no_sep [OF pad2_digits [OF dd]]
  show ?thesis by (simp add: strftime_Ymd_def)
qed

lemma strftime_HM_chars:
  assumes "h < 100" "m < 100"
  shows "CHR '' '' \<notin> set (strftime_HM h m)"
  using digits_no_sep [OF pad2_digits [OF assms(1)]] digits_no_sep [OF pad2_digits [OF assms(2)]]
  by (simp add: strftime_HM_def)

lemma split_date_time:
  assumes "valid_date d" "h < 100" "m < 100"
  shows "split CHR '' '' (strftime_Ymd_HM d h m) = [strftime_Ymd d, strftime_HM h m]"
proof -
  have "split CHR '' '' (strftime_Ymd d @ CHR '' '' # strftime_HM h m) =
      strftime_Ymd d # split CHR '' '' (strftime_HM h m)"
    using strftime_Ymd_chars [OF assms(1)] by (rule split_sep)
  also have "split CHR '' '' (strftime_HM h m) = [strftime_HM h m]"
    using strftime_HM_chars [OF assms(2,3)] by (rule split_no_sep)
  finally show ?thesis by (simp add: strftime_Ymd_HM_def)
qed

lemma split_hour_minute:
  assumes "h < 100" "m < 100"
  shows "split CHR '':'' (strftime_HM h m) = [pad2 h, pad2 m]"
proof -
  have "split CHR '':'' (pad2 h @ CHR '':'' # pad2 m) = pad2 h # split CHR '':'' (pad2 m)"
    using colon_pad2 [OF assms(1)] by (rule split_sep)
  also have "split CHR '':'' (pad2 m) = [pad2 m]"
    using colon_pad2 [OF assms(2)] by (rule split_no_sep)
  finally show ?thesis by (simp add: strftime_HM_def)
qed

lemma strptime_strftime_Ymd:
  assumes "valid_date d"
  shows "strptime_Ymd (strftime_Ymd d) = Inr d"
proof -
  from assms have y: "year d < 10000" and m: "month d < 100" and dd: "day d < 100"
    using days_in_month_bounds [of "year d" "month d"] by (simp_all add: valid_date_def)
  have "split CHR ''-'' (pad4 (year d) @ CHR ''-'' # pad2 (month d) @ CHR ''-'' # pad2 (day d)) =
      pad4 (year d) # split CHR ''-'' (pad2 (month d) @ CHR ''-'' # pad2 (day d))"
    using digits_no_sep [OF pad4_digits [OF y]] by (intro split_sep) simp
  also have "split CHR ''-'' (pad2 (month d) @ CHR ''-'' # pad2 (day d)) =
      pad2 (month d) # split CHR ''-'' (pad2 (day d))"
    using digits_no_sep [OF pad2_digits [OF m]] by (intro split_sep) simp
  also have "split CHR ''-'' (pad2 (day d)) = [pad2 (day d)]"
    using digits_no_sep [OF pad2_digits [OF dd]] by (intro split_no_sep) simp
  finally have sp: "split CHR ''-'' (strftime_Ymd d) =
      [pad4 (year d), pad2 (month d), pad2 (day d)]"
    by (simp add: strftime_Ymd_def)
  have len: "length (pad4 (year d)) = 4" by (simp add: pad4_def pad2_def)
  have df: "day_field (pad2 (day d)) = Some (day d)"
    using pad2_digits [OF dd] is_digit_not [of "hd (pad2 (day d))"] num_1_2_pad2 [OF dd]
    by (auto simp: day_field_def pad2_def)
  have "Date (year d) (month d) (day d) = d" by simp
  then show ?thesis
    using assms
    by (simp add: strptime_Ymd_def sp len pad4_digits [OF y] digits_val_pad4 [OF y]
          num_1_2_pad2 [OF m] df)
qed

lemma convert_value:
  assumes "strptime_Ymd date_str = Inr d" and "py_int seconds_str = Inr (int s)"
    and "add_days d (s div 86400) = Inr d'"
  shows "convert_scheduled_start_date_time date_str seconds_str =
           Inr (strftime_Ymd d',
                (if s mod 86400 < 3600 then ''24'' else pad2 (s mod 86400 div 3600)) @ '':'' @
                pad2 (s mod 86400 mod 3600 div 60))"
proof -
  define h where "h = s mod 86400 div 3600"
  define m where "m = s mod 86400 mod 3600 div 60"
  have h: "h < 24" unfolding h_def by (simp add: less_mult_imp_div_less)
  have m: "m < 60" unfolding m_def by (simp add: less_mult_imp_div_less)
  have h0: "h = 0 \<longleftrightarrow> s mod 86400 < 3600" unfolding h_def by (simp add: div_eq_0_iff)
  have v: "valid_date d'"
    using add_days_valid [OF strptime_Ymd_valid [OF assms(1)] assms(3)] .
  have dt: "datetime_add_seconds d (int s) = Inr (d', h, m)"
    by (simp add: datetime_add_seconds_nat assms(3) h_def m_def)
  have sp: "split CHR '' '' (strftime_Ymd_HM d' h m) = [strftime_Ymd d', strftime_HM h m]"
    using v h m by (intro split_date_time) simp_all
  have st: "startswith (strftime_HM h m) ''00:'' \<longleftrightarrow> h = 0"
    using startswith_hm [of h m] h by (simp add: strftime_HM_def)
  have sm: "split CHR '':'' (strftime_HM h m) = [pad2 h, pad2 m]"
    using h m by (intro split_hour_minute) simp_all
  have "convert_scheduled_start_date_time date_str seconds_str =
      Inr (strftime_Ymd d',
           if startswith (strftime_HM h m) ''00:'' then ''24:'' @ pad2 m else strftime_HM h m)"
    by (simp add: convert_scheduled_start_date_time_def assms(1,2) dt sp sm get_def)
  then have "convert_scheduled_start_date_time date_str seconds_str =
      Inr (strftime_Ymd d', if h = 0 then ''24:'' @ pad2 m else strftime_HM h m)"
    unfolding st .
  then show ?thesis
    unfolding h_def [symmetric] m_def [symmetric] h0 [symmetric]
    by (simp add: strftime_HM_def)
qed

text \<open>
  The example in the docstring of the source, \<^verbatim>\<open>"20231211 395" --> "2023-12-11" and "06:35"\<close>,
  is not what the function computes: a date without dashes is refused, and 395 seconds
  after midnight is 00:06, written \<^verbatim>\<open>24:06\<close>; 06:35 is 23700 seconds after midnight.
\<close>

lemma convert_docstring_example:
  "convert_scheduled_start_date_time ''20231211'' ''395'' = Inl ValueError \<and>
   convert_scheduled_start_date_time ''2023-12-11'' ''395'' = Inr (''2023-12-11'', ''24:06'') \<and>
   convert_scheduled_start_date_time ''2023-12-11'' ''23700'' = Inr (''2023-12-11'', ''06:35'')"
proof -
  have a: "strptime_Ymd ''2023-12-11'' = Inr (Date 2023 12 11)" by code_simp
  have b: "py_int ''395'' = Inr (int 395)" "py_int ''23700'' = Inr (int 23700)"
    by (simp_all add: py_int_def is_c_space_def is_digit_def digits_val_def digit_val_def)
  have c: "add_days (Date 2023 12 11) (395 div 86400) = Inr (Date 2023 12 11)"
    "add_days (Date 2023 12 11) (23700 div 86400) = Inr (Date 2023 12 11)"
    by simp_all
  have d: "strftime_Ymd (Date 2023 12 11) = ''2023-12-11''"
    by (simp add: strftime_Ymd_def pad4_def pad2_def digit_char_simps)
  have t: "(if (395::nat) mod 86400 < 3600 then ''24'' else pad2 (395 mod 86400 div 3600)) @
             '':'' @ pad2 (395 mod 86400 mod 3600 div 60) = ''24:06''"
    "(if (23700::nat) mod 86400 < 3600 then ''24'' else pad2 (23700 mod 86400 div 3600)) @
             '':'' @ pad2 (23700 mod 86400 mod 3600 div 60) = ''06:35''"
    by (simp_all add: pad2_def digit_char_simps)
  have e: "convert_scheduled_start_date_time ''20231211'' ''395'' = Inl ValueError"
    by (simp add: convert_scheduled_start_date_time_def strptime_Ymd_def split_def)
  from convert_value [OF a b(1) c(1)] convert_value [OF a b(2) c(2)] e
  show ?thesis unfolding d t by simp
qed

text \<open>
  Claim C1, amended. For a date that \<^verbatim>\<open>strptime\<close> accepts and a count \<open>s\<close> of seconds
  that is not negative, with the sum inside the calendar: the conversion returns the
  text of the date \<open>s div 86400\<close> days after the input date, and the minute-precision
  time of the remaining seconds, written with hour 24 when it falls in the first hour of
  the day. The date returned is the input date exactly when \<open>s\<close> is below 86400.
\<close>

theorem convert_date_of_sum:
  assumes "strptime_Ymd date_str = Inr d" and "py_int seconds_str = Inr (int s)"
    and "add_days d (s div 86400) = Inr d'"
  shows "\<exists>date_out time_out.
           convert_scheduled_start_date_time date_str seconds_str = Inr (date_out, time_out) \<and>
           strptime_Ymd date_out = Inr d' \<and>
           time_out =
             (if s mod 86400 < 3600 then ''24'' else pad2 (s mod 86400 div 3600)) @ '':'' @
             pad2 (s mod 86400 mod 3600 div 60) \<and>
           (d' = d \<longleftrightarrow> s < 86400)"
proof -
  have v: "valid_date d'"
    using add_days_valid [OF strptime_Ymd_valid [OF assms(1)] assms(3)] .
  have "d' = d \<longleftrightarrow> s div 86400 = 0" using assms(3) by (rule add_days_same_iff)
  also have "\<dots> \<longleftrightarrow> s < 86400" by (simp add: div_eq_0_iff)
  finally have same: "d' = d \<longleftrightarrow> s < 86400" .
  from convert_value [OF assms] strptime_strftime_Ymd [OF v] same show ?thesis by blast
qed

theorem convert_date_of_sum_witness:
  "strptime_Ymd ''2023-12-11'' = Inr (Date 2023 12 11) \<and> py_int ''60'' = Inr (int 60) \<and>
   add_days (Date 2023 12 11) (60 div 86400) = Inr (Date 2023 12 11) \<and>
   convert_scheduled_start_date_time ''2023-12-11'' ''60'' = Inr (''2023-12-11'', ''24:01'') \<and>
   (\<exists>date_out time_out.
      convert_scheduled_start_date_time ''2023-12-11'' ''60'' = Inr (date_out, time_out) \<and>
      strptime_Ymd date_out = Inr (Date 2023 12 11) \<and>
      time_out =
        (if (60::nat) mod 86400 < 3600 then ''24'' else pad2 (60 mod 86400 div 3600)) @ '':'' @
        pad2 (60 mod 86400 mod 3600 div 60) \<and>
      (Date 2023 12 11 = Date 2023 12 11 \<longleftrightarrow> (60::nat) < 86400))"
proof -
  have a: "strptime_Ymd ''2023-12-11'' = Inr (Date 2023 12 11)" by code_simp
  have "py_int ''60'' = Inr 60" by code_simp
  then have b: "py_int ''60'' = Inr (int 60)" by simp
  have c: "add_days (Date 2023 12 11) (60 div 86400) = Inr (Date 2023 12 11)" by simp
  have r: "convert_scheduled_start_date_time ''2023-12-11'' ''60'' = Inr (''2023-12-11'', ''24:01'')"
    by code_simp
  show ?thesis
    by (rule conjI [OF a conjI [OF b conjI [OF c conjI [OF r convert_date_of_sum [OF a b c]]]]])
qed

text \<open>
  Claim C1, as stated, fails for a count of seconds above 86400: the time is written as
  \<^verbatim>\<open>24:01\<close>, and the date returned is the next calendar date, not the input date.
\<close>

theorem convert_returns_next_date_counterexample:
  "convert_scheduled_start_date_time ''2023-12-11'' ''86460'' = Inr (''2023-12-12'', ''24:01'')"
proof -
  have a: "strptime_Ymd ''2023-12-11'' = Inr (Date 2023 12 11)" by code_simp
  have b: "py_int ''86460'' = Inr (int 86460)"
    by (simp add: py_int_def is_c_space_def is_digit_def digits_val_def digit_val_def)
  have c: "add_days (Date 2023 12 11) (86460 div 86400) = Inr (Date 2023 12 12)"
    by (simp add: next_day_def days_in_month_def)
  have d: "strftime_Ymd (Date 2023 12 12) = ''2023-12-12''"
    by (simp add: strftime_Ymd_def pad4_def pad2_def digit_char_simps)
  have t: "(if (86460::nat) mod 86400 < 3600 then ''24'' else pad2 (86460 mod 86400 div 3600)) @
             '':'' @ pad2 (86460 mod 86400 mod 3600 div 60) = ''24:01''"
    by (simp add: pad2_def digit_char_simps)
  from convert_value [OF a b c] show ?thesis unfolding d t .
qed

section \<open>What the Timetable Builder computes\<close>

lemma dict_loop_find:
  "dict_loop rows d k = (case d k of Some v \<Rightarrow> Some v | None \<Rightarrow> find (\<lambda>row. fst row = k) rows)"
  by (induction rows arbitrary: d) (auto split: option.splits)

lemma loadtxt_two_rows: "2 \<le> length file_rows \<Longrightarrow> loadtxt file_rows = Array2 file_rows"
  by (auto simp: loadtxt_def split: list.splits)

lemma readTrips_two_rows:
  "2 \<le> length trips \<Longrightarrow> \<exists>d. readTrips trips = Inr (Array2 trips, d) \<and>
     (\<forall>k. dict_get d k = find (\<lambda>trip. fst trip = k) trips)"
  by (simp add: readTrips_def loadtxt_two_rows dict_get_def dict_loop_find)

lemma readStops_two_rows:
  "2 \<le> length stops \<Longrightarrow> \<exists>d. readStops stops = Inr (Array2 stops, d) \<and>
     (\<forall>k. dict_get d k = find (\<lambda>stop. fst stop = k) stops)"
  by (simp add: readStops_def loadtxt_two_rows dict_get_def dict_loop_find)

text \<open>
  On tables of two or more rows each, every output row after the title row is the
  stop_time row with the route_id, service_id and direction of the first row of trips
  that has its trip_id, and the stop_name, latitude and longitude of the first row of
  stops that has its stop_id; where there is no such row the three cells keep their
  zero.
\<close>

lemma first_seen_wins_two_rows:
  assumes "2 \<le> length stop_times" and "2 \<le> length trips" and "2 \<le> length stops"
  shows "mergeStopTimesAndTrips stop_times trips stops =
     Inr (titles #
       map (\<lambda>(trip_id, arrival_time, departure_time, stop_id).
              [trip_id] @
              (case find (\<lambda>trip. fst trip = trip_id) trips of
                 None \<Rightarrow> [zero_cell, zero_cell, zero_cell]
               | Some (t, route_id, service_id, direction) \<Rightarrow>
                   [route_id, service_id, direction]) @
              [arrival_time, departure_time, stop_id] @
              (case find (\<lambda>stop. fst stop = stop_id) stops of
                 None \<Rightarrow> [zero_cell, zero_cell, zero_cell]
               | Some (s, stop_name, latitude, longitude) \<Rightarrow>
                   [stop_name, latitude, longitude]))
         stop_times)"
proof -
  from readTrips_two_rows [OF assms(2)] obtain td where
    td: "readTrips trips = Inr (Array2 trips, td)"
      "\<forall>k. dict_get td k = find (\<lambda>trip. fst trip = k) trips"
    by blast
  from readStops_two_rows [OF assms(3)] obtain sd where
    sd: "readStops stops = Inr (Array2 stops, sd)"
      "\<forall>k. dict_get sd k = find (\<lambda>stop. fst stop = k) stops"
    by blast
  show ?thesis
    using td(2) sd(2)
    by (auto simp: mergeStopTimesAndTrips_def readStopTimes_def loadtxt_two_rows [OF assms(1)]
          td(1) sd(1) merge_row_def Let_def split: option.splits prod.splits)
qed

text \<open>
  Claim C8. The claim: for every stop_time row the stop_name, latitude and longitude come
  from the first row of stops with its stop_id. The code: a stops file with a single row
  is loaded as a one-dimensional array, the dictionary gets the first bytes of its cells
  as keys, no stop_id is found in it, and the three cells keep their zero, although the
  row of stops has the stop_id; the trips table here has two rows with the same trip_id,
  and the first one is used. A stop_times file with a single row raises AxisError.
\<close>

theorem one_row_table_not_enriched:
  "mergeStopTimesAndTrips
     [(''T1'', ''06:35:00'', ''06:35:00'', ''1000''), (''T1'', ''06:42:00'', ''06:42:00'', ''1177'')]
     [(''T1'', ''61A'', ''WK'', ''0''), (''T1'', ''61B'', ''SA'', ''1'')]
     [(''1000'', ''Stop A'', ''40.1'', ''-79.1'')]
   = Inr [titles,
      [''T1'', ''61A'', ''WK'', ''0'', ''06:35:00'', ''06:35:00'', ''1000'', ''0.0'', ''0.0'', ''0.0''],
      [''T1'', ''61A'', ''WK'', ''0'', ''06:42:00'', ''06:42:00'', ''1177'', ''0.0'', ''0.0'', ''0.0'']]
   \<and> mergeStopTimesAndTrips
     [(''T1'', ''06:35:00'', ''06:35:00'', ''1000'')]
     [(''T1'', ''61A'', ''WK'', ''0''), (''T1'', ''61B'', ''SA'', ''1'')]
     [(''1000'', ''Stop A'', ''40.1'', ''-79.1''), (''1177'', ''Stop B'', ''40.2'', ''-79.2'')]
   = Inl AxisError"
  by (simp add: mergeStopTimesAndTrips_def readStopTimes_def readTrips_def readStops_def
        loadtxt_def merge_row_def dict_get_def zero_cell_def)

end
